theory Spec2Isabelle
  imports Main "HOL-Library.Word"
begin

section \<open>Bytes, buffers and JavaScript errors\<close>

text \<open>
  The repository is a Node.js script in two variants that share one file under
  \<^verbatim>\<open>src/scripts/parse-history.js\<close>: the first variant (called \<^emph>\<open>full\<close> below) checks that
  the payload has 137 bytes and resolves a token name asynchronously, the second variant
  (called \<^emph>\<open>minimal\<close>) reads three fields without any length check.

  A decoded base58 payload is a \<^verbatim>\<open>Uint8Array\<close>: a list of bytes. Exceptions are values.
\<close>

type_synonym byte = "8 word"

datatype js_error = RangeError | TypeError | NetworkError

text \<open>\<^verbatim>\<open>Uint8Array.prototype.slice(start, stop)\<close> for \<open>start \<le> stop\<close>: clamped to the array.\<close>

definition js_slice :: "nat \<Rightarrow> nat \<Rightarrow> 'a list \<Rightarrow> 'a list" where
  "js_slice start stop xs = take (stop - start) (drop start xs)"

text \<open>The unsigned value of a little-endian byte sequence.\<close>

fun le_bytes :: "byte list \<Rightarrow> int" where
  "le_bytes [] = 0"
| "le_bytes (b # bs) = uint b + 256 * le_bytes bs"

text \<open>
  \<^verbatim>\<open>Buffer.prototype.readBigInt64LE()\<close> at offset 0: Node raises a \<^verbatim>\<open>RangeError\<close> when the
  buffer has no byte 0 or no byte 7, and otherwise returns the first eight bytes read as a
  \<^emph>\<open>signed\<close> two's-complement integer.
\<close>

definition readBigInt64LE :: "byte list \<Rightarrow> js_error + int" where
  "readBigInt64LE buf =
     (if length buf < 8 then Inl RangeError
      else let v = le_bytes (take 8 buf)
           in Inr (if v < 2 ^ 63 then v else v - 2 ^ 64))"

text \<open>\<^verbatim>\<open>BigInt.prototype.toString()\<close>: the decimal numeral, with a minus sign when negative.\<close>

definition digit_char :: "nat \<Rightarrow> char" where
  "digit_char d = ''0123456789'' ! d"

fun nat_digits :: "nat \<Rightarrow> string" where
  "nat_digits n =
     (if n < 10 then [digit_char n] else nat_digits (n div 10) @ [digit_char (n mod 10)])"

declare nat_digits.simps [simp del]

definition toString :: "int \<Rightarrow> string" where
  "toString i = (if i < 0 then CHR ''-'' # nat_digits (nat (- i)) else nat_digits (nat i))"

text \<open>
  \<^verbatim>\<open>encoded[i] == 1\<close>: reading past the end of a typed array gives \<^verbatim>\<open>undefined\<close>, and
  \<^verbatim>\<open>undefined == 1\<close> is false; nothing is raised.
\<close>

definition byte_is_one :: "byte list \<Rightarrow> nat \<Rightarrow> bool" where
  "byte_is_one encoded i = (i < length encoded \<and> encoded ! i = 1)"

section \<open>The decoded records\<close>

text \<open>
  The minimal variant returns \<^verbatim>\<open>{solAmount, tokenAmount, isBuy}\<close>; the full variant adds the
  mint and the timestamp from the payload, then the fields attached from the transaction
  (\<^verbatim>\<open>PumpfunTxResult\<close> in the source's JSDoc). Amounts and the payload timestamp are strings
  (\<^verbatim>\<open>readBigInt64LE().toString()\<close>). The mint is kept as its 32 raw bytes.
\<close>

record trade =
  solAmount :: string
  tokenAmount :: string
  isBuy :: bool

record decoded_full = trade +
  mint :: "byte list"
  timestamp :: string

section \<open>The binary decoder\<close>

text \<open>
  The body of the full variant's loop for one payload (source lines 121 to 127).
  \<open>Inr None\<close> is the \<^verbatim>\<open>continue\<close> on a payload whose length is not 137: nothing is decoded
  from it; \<open>Inl\<close> is a raised exception.
\<close>

definition decodeFull :: "byte list \<Rightarrow> js_error + decoded_full option" where
  "decodeFull encoded =
     (if length encoded \<noteq> 137 then Inr None
      else case readBigInt64LE (js_slice 48 56 encoded) of Inl e \<Rightarrow> Inl e | Inr sol \<Rightarrow>
           (case readBigInt64LE (js_slice 56 64 encoded) of Inl e \<Rightarrow> Inl e | Inr tok \<Rightarrow>
           (case readBigInt64LE (js_slice 97 105 encoded) of Inl e \<Rightarrow> Inl e | Inr ts \<Rightarrow>
              Inr (Some \<lparr>solAmount = toString sol, tokenAmount = toString tok,
                         isBuy = byte_is_one encoded 64,
                         mint = js_slice 16 48 encoded, timestamp = toString ts\<rparr>))))"

text \<open>The body of the minimal variant's loop for one payload (source lines 327 to 333).\<close>

definition decodeMinimal :: "byte list \<Rightarrow> js_error + trade" where
  "decodeMinimal encoded =
     (case readBigInt64LE (js_slice 48 56 encoded) of Inl e \<Rightarrow> Inl e | Inr sol \<Rightarrow>
     (case readBigInt64LE (js_slice 56 64 encoded) of Inl e \<Rightarrow> Inl e | Inr tok \<Rightarrow>
        Inr \<lparr>solAmount = toString sol, tokenAmount = toString tok,
             isBuy = byte_is_one encoded 64\<rparr>))"

text \<open>
  The layout as the source's closing comment documents it, for comparison with what the
  decoder computes: the unsigned and the signed 64-bit little-endian integer at an offset.
\<close>

definition u64_at :: "byte list \<Rightarrow> nat \<Rightarrow> int" where
  "u64_at bs off = (\<Sum>k<8. uint (bs ! (off + k)) * 256 ^ k)"

definition i64_at :: "byte list \<Rightarrow> nat \<Rightarrow> int" where
  "i64_at bs off = (if u64_at bs off < 2 ^ 63 then u64_at bs off else u64_at bs off - 2 ^ 64)"

text \<open>The 137-byte payload of the source's closing comment.\<close>

definition fixture :: "byte list" where
  "fixture =
    [0xe4, 0x45, 0xa5, 0x2e, 0x51, 0xcb, 0x9a, 0x1d, 0xbd, 0xdb, 0x7f, 0xd3, 0x4e, 0xe6, 0x61, 0xee,
     0x59, 0x2a, 0x92, 0xab, 0x10, 0x62, 0x1a, 0x8f, 0x80, 0x51, 0xa9, 0xdd, 0x15, 0xd2, 0x22, 0x97,
     0x90, 0xcf, 0x0f, 0x98, 0xdd, 0x61, 0xcb, 0x91, 0xe5, 0xae, 0x2f, 0x20, 0x4d, 0x20, 0xd0, 0x0f,
     0xee, 0xa3, 0x45, 0x1d, 0x00, 0x00, 0x00, 0x00,
     0x5f, 0x64, 0x4b, 0xb8, 0x25, 0x0b, 0x00, 0x00,
     0x01,
     0xec, 0x77, 0x58, 0x35, 0x5e, 0x95, 0x13, 0x81, 0xfb, 0xc7, 0x40, 0x2d, 0xb2, 0xc5, 0x43, 0xe5,
     0xf7, 0xc7, 0xd4, 0x19, 0xd7, 0x2a, 0x3f, 0xe7, 0xcd, 0xf2, 0x00, 0x0c, 0xfb, 0xde, 0x65, 0x7c,
     0xef, 0x99, 0xa4, 0x67, 0x00, 0x00, 0x00, 0x00,
     0x93, 0x9e, 0x50, 0x6b, 0x08, 0x00, 0x00, 0x00,
     0xdf, 0x01, 0x7b, 0x27, 0xa3, 0x29, 0x03, 0x00,
     0x93, 0xf2, 0x2c, 0x6f, 0x01, 0x00, 0x00, 0x00,
     0xdf, 0x69, 0x68, 0xdb, 0x11, 0x2b, 0x02, 0x00]"

text \<open>
  The same payload with the top bit of byte 55 set: a \<open>solAmount\<close> of at least \<open>2 ^ 63\<close>.
\<close>

definition fixture_high :: "byte list" where
  "fixture_high = take 55 fixture @ [0x80] @ drop 56 fixture"

section \<open>Transactions as the RPC returns them\<close>

text \<open>
  Only what the script reads. A field the source guards (\<^verbatim>\<open>&&\<close>, \<^verbatim>\<open>?.\<close>, \<^verbatim>\<open>??\<close>,
  \<^verbatim>\<open>=== null\<close>) or that the RPC types declare nullable is an option; reading a property of
  \<^verbatim>\<open>null\<close> or \<^verbatim>\<open>undefined\<close> raises a \<^verbatim>\<open>TypeError\<close>. A public key is its base58 text, and
  an instruction's \<open>data\<close> is the payload after \<^verbatim>\<open>bs58.decode\<close>.
\<close>

type_synonym pubkey = string

definition PUMPFUN_PROGRAM_ID :: pubkey where
  "PUMPFUN_PROGRAM_ID = ''6EF8rrecthR5Dkzon8Nwu78hRvfCKubJ14M5uBEwF6P''"

definition batchSize :: nat where
  "batchSize = 20"

record instruction =
  programId :: "pubkey option"
  data :: "byte list"

record inner_instruction =
  instructions :: "instruction list"

record tx_meta =
  logMessages :: "string list option"
  innerInstructions :: "inner_instruction list option"
  err :: "string option"

record tx_body =
  message_instructions :: "instruction list option"
  signatures :: "string list"

record tx_response =
  tx_transaction :: "tx_body option"
  tx_meta :: "tx_meta option"
  tx_slot :: nat
  tx_blockTime :: "int option"

text \<open>An element of the list that \<^verbatim>\<open>getSignatures\<close> returns.\<close>

record sig_info =
  sig_signature :: string
  sig_blockTime :: "int option"

text \<open>
  The outcome of \<^verbatim>\<open>connection.getParsedTransaction\<close>: the promise is rejected, or fulfilled
  with a transaction or with \<^verbatim>\<open>null\<close> (unknown signature).
\<close>

datatype fetched = Rejected | Fulfilled "tx_response option"

section \<open>The classifier\<close>

text \<open>\<^verbatim>\<open>String.prototype.includes\<close>: a contiguous, case-sensitive substring.\<close>

fun str_includes :: "string \<Rightarrow> string \<Rightarrow> bool" where
  "str_includes [] pat = (pat = [])"
| "str_includes (c # cs) pat = (take (length pat) (c # cs) = pat \<or> str_includes cs pat)"

definition references_pumpfun :: "instruction list \<Rightarrow> bool" where
  "references_pumpfun ins = list_ex (\<lambda>i. programId i = Some PUMPFUN_PROGRAM_ID) ins"

text \<open>Source lines 88 to 93 (and 310 to 315): the log markers, Buy first.\<close>

definition log_type :: "tx_response \<Rightarrow> js_error + nat" where
  "log_type tx =
     (case tx_meta tx of None \<Rightarrow> Inl TypeError | Some m \<Rightarrow>
     (case logMessages m of None \<Rightarrow> Inl TypeError | Some logs \<Rightarrow>
        if list_ex (\<lambda>l. str_includes l ''Program log: Instruction: Buy'') logs then Inr 1
        else if list_ex (\<lambda>l. str_includes l ''Program log: Instruction: Sell'') logs then Inr 2
        else Inr 0))"

text \<open>
  \<^verbatim>\<open>isPumpfunTx\<close>: 0 for not pumpfun, 1 for buy, 2 for sell. The full variant guards
  \<^verbatim>\<open>tx.transaction\<close>, the minimal variant reads through it.
\<close>

definition isPumpfunTx_full :: "tx_response option \<Rightarrow> js_error + nat" where
  "isPumpfunTx_full r =
     (case r of None \<Rightarrow> Inl TypeError | Some tx \<Rightarrow>
     (case tx_transaction tx of None \<Rightarrow> Inr 0 | Some body \<Rightarrow>
     (case message_instructions body of None \<Rightarrow> Inr 0 | Some ins \<Rightarrow>
        if references_pumpfun ins then log_type tx else Inr 0)))"

definition isPumpfunTx_min :: "tx_response option \<Rightarrow> js_error + nat" where
  "isPumpfunTx_min r =
     (case r of None \<Rightarrow> Inl TypeError | Some tx \<Rightarrow>
     (case tx_transaction tx of None \<Rightarrow> Inl TypeError | Some body \<Rightarrow>
     (case message_instructions body of None \<Rightarrow> Inr 0 | Some ins \<Rightarrow>
        if references_pumpfun ins then log_type tx else Inr 0)))"

section \<open>Locating and decoding the payload\<close>

text \<open>
  The two nested loops of \<^verbatim>\<open>parsePumpfunTx\<close> over the inner-instruction groups, with the
  decoder of the variant as \<open>dec\<close>: \<open>Inr None\<close> from \<open>dec\<close> is \<^verbatim>\<open>continue\<close>,
  \<open>Inr (Some d)\<close> is \<^verbatim>\<open>return\<close>, \<open>Inl\<close> is an exception leaving the function.
\<close>

fun scan_instructions ::
  "(byte list \<Rightarrow> js_error + 'a option) \<Rightarrow> instruction list \<Rightarrow> js_error + 'a option" where
  "scan_instructions dec [] = Inr None"
| "scan_instructions dec (i # rest) =
     (case programId i of None \<Rightarrow> Inl TypeError | Some p \<Rightarrow>
        if p = PUMPFUN_PROGRAM_ID then
          (case dec (data i) of Inl e \<Rightarrow> Inl e | Inr (Some d) \<Rightarrow> Inr (Some d)
           | Inr None \<Rightarrow> scan_instructions dec rest)
        else scan_instructions dec rest)"

fun scan_groups ::
  "(byte list \<Rightarrow> js_error + 'a option) \<Rightarrow> inner_instruction list \<Rightarrow> js_error + 'a option" where
  "scan_groups dec [] = Inr None"
| "scan_groups dec (g # gs) =
     (case scan_instructions dec (instructions g) of Inl e \<Rightarrow> Inl e | Inr (Some d) \<Rightarrow> Inr (Some d)
      | Inr None \<Rightarrow> scan_groups dec gs)"

text \<open>\<^verbatim>\<open>tx.meta?.innerInstructions ?? []\<close> and \<^verbatim>\<open>tx.meta?.err === null\<close>.\<close>

definition inner_groups :: "tx_response \<Rightarrow> inner_instruction list" where
  "inner_groups tx =
     (case tx_meta tx of None \<Rightarrow> [] | Some m \<Rightarrow>
     (case innerInstructions m of None \<Rightarrow> [] | Some gs \<Rightarrow> gs))"

definition tx_success :: "tx_response \<Rightarrow> bool" where
  "tx_success tx = (case tx_meta tx of None \<Rightarrow> False | Some m \<Rightarrow> err m = None)"

text \<open>
  The minimal variant's \<^verbatim>\<open>parsePumpfunTx\<close>: the first inner instruction of the program is
  decoded whatever its length; \<open>Inr None\<close> is the \<^verbatim>\<open>undefined\<close> returned when the loops end.
\<close>

definition parsePumpfunTx_min :: "tx_response \<Rightarrow> js_error + trade option" where
  "parsePumpfunTx_min tx =
     scan_groups (\<lambda>encoded. case decodeMinimal encoded of Inl e \<Rightarrow> Inl e | Inr t \<Rightarrow> Inr (Some t))
       (inner_groups tx)"

text \<open>
  \<^verbatim>\<open>nameOfToken\<close>. The metadata service is outside the repository: \<open>metaplex\<close> gives the
  name it returns for a mint, \<open>None\<close> when the lookup fails. With a service that answers
  the same for the same mint, the cache \<^verbatim>\<open>tokenNameCache\<close> does not change the value returned.
\<close>

definition nameOfToken :: "(byte list \<Rightarrow> string option) \<Rightarrow> byte list \<Rightarrow> js_error + string" where
  "nameOfToken metaplex m =
     (case metaplex m of None \<Rightarrow> Inl NetworkError
      | Some name \<Rightarrow>
          Inr (if str_includes name '' '' then [CHR 0x22] @ name @ [CHR 0x22] else name))"

record PumpfunTxResult = decoded_full +
  slot :: nat
  signature :: "string option"
  success :: bool
  tokenName :: string

text \<open>
  The full variant's \<^verbatim>\<open>parsePumpfunTx\<close> is an \<^verbatim>\<open>async\<close> function: the value here is what
  its promise settles with, \<open>Inl\<close> for a rejection, \<open>Inr None\<close> for \<^verbatim>\<open>undefined\<close>.
  \<^verbatim>\<open>signatures[0]\<close> of an empty list is \<^verbatim>\<open>undefined\<close>.
\<close>

definition parsePumpfunTx_full ::
  "(byte list \<Rightarrow> string option) \<Rightarrow> tx_response \<Rightarrow> js_error + PumpfunTxResult option" where
  "parsePumpfunTx_full metaplex tx =
     (case scan_groups decodeFull (inner_groups tx) of Inl e \<Rightarrow> Inl e | Inr None \<Rightarrow> Inr None
      | Inr (Some d) \<Rightarrow>
     (case nameOfToken metaplex (mint d) of Inl e \<Rightarrow> Inl e | Inr name \<Rightarrow>
     (case tx_transaction tx of None \<Rightarrow> Inl TypeError | Some body \<Rightarrow>
        Inr (Some \<lparr>solAmount = solAmount d, tokenAmount = tokenAmount d, isBuy = isBuy d,
                   mint = mint d, timestamp = timestamp d,
                   slot = tx_slot tx,
                   signature = (case signatures body of [] \<Rightarrow> None | sg # _ \<Rightarrow> Some sg),
                   success = tx_success tx, tokenName = name\<rparr>))))"

text \<open>
  \<^verbatim>\<open>showPumpfunTx\<close> prints one line. It raises on \<^verbatim>\<open>undefined\<close>, and
  \<^verbatim>\<open>new Date(parseInt(timestamp) * 1e3).toISOString()\<close> raises a \<^verbatim>\<open>RangeError\<close> when the
  time value is outside \<open>\<plusminus>8.64e15\<close> milliseconds, that is when the timestamp is beyond
  \<open>8640000000000\<close> seconds in absolute value; nothing else in it can raise.
\<close>

fun parse_digits :: "int \<Rightarrow> string \<Rightarrow> int" where
  "parse_digits acc [] = acc"
| "parse_digits acc (c # cs) = parse_digits (10 * acc + (int (of_char c) - 48)) cs"

definition parseInt :: "string \<Rightarrow> int" where
  "parseInt str = (case str of [] \<Rightarrow> 0
                   | c # cs \<Rightarrow> if c = CHR ''-'' then - parse_digits 0 cs else parse_digits 0 (c # cs))"

definition showPumpfunTx_raises :: "PumpfunTxResult \<Rightarrow> bool" where
  "showPumpfunTx_raises parsedTx = (\<bar>parseInt (timestamp parsedTx)\<bar> > 8640000000000)"

section \<open>The bounded fetch pipeline\<close>

text \<open>
  \<^verbatim>\<open>getTransactionDetails\<close> shares three variables between its callbacks: the array
  \<open>transactions\<close>, the set \<open>inProgress\<close> and the counter \<open>completed\<close>. The state below is
  these three, together with what is needed to follow the promises:
  \<^item> a promise is named by the order of its creation (the first one launched is 0);
    a promise just created is a new object, so \<^verbatim>\<open>inProgress.add\<close> appends it and
    \<^verbatim>\<open>inProgress.size\<close> is the length of the list;
  \<^item> \<open>launched\<close> records, per promise, the index \<^verbatim>\<open>completed + inProgress.size\<close> at which
    its signature was read;
  \<^item> \<open>fetching\<close> holds the promises whose fetch has not settled, each with the \<^verbatim>\<open>sig\<close>
    its callbacks close over;
  \<^item> \<open>parsing\<close> holds the detached promises of the full variant's
    \<^verbatim>\<open>parsePumpfunTx(tx).then(...)\<close>, each with the value it will settle with;
  \<^item> \<open>errors\<close> is the signatures printed by \<^verbatim>\<open>console.error\<close> in the \<^verbatim>\<open>catch\<close> handler,
    \<open>unhandled\<close> counts the rejections of detached promises that no handler receives;
  \<^item> \<open>resolved\<close> is the value passed to \<^verbatim>\<open>resolve\<close>. The object holds the numbers
    \<open>txCount\<close> and \<open>pumpfunCount\<close>, computed when \<^verbatim>\<open>resolve\<close> is called, and a reference
    to the shared array, not a copy: what the caller reads as \<^verbatim>\<open>data.transactions\<close> is
    \<open>transactions\<close> of the state in which it reads. The caller's continuation runs some
    promise hops after \<^verbatim>\<open>resolve\<close>, and may keep the object; a callback that pushes in
    between or later changes what it reads.
  Progress lines printed by \<^verbatim>\<open>console.log\<close> are left out.
\<close>

record result =
  txCount :: nat
  pumpfunCount :: nat

record ('ev, 'p) pipeline =
  transactions :: "'ev list"
  inProgress :: "nat list"
  completed :: nat
  launched :: "nat list"
  fetching :: "(nat \<times> sig_info) list"
  parsing :: "(nat \<times> 'p) list"
  errors :: "string list"
  unhandled :: nat
  resolved :: "result option"

definition init :: "('ev, 'p) pipeline" where
  "init = \<lparr>transactions = [], inProgress = [], completed = 0, launched = [], fetching = [],
           parsing = [], errors = [], unhandled = 0, resolved = None\<rparr>"

text \<open>One round of the \<^verbatim>\<open>while\<close> loop in \<^verbatim>\<open>startNext\<close>: read the signature, start the fetch.\<close>

definition launch :: "sig_info list \<Rightarrow> ('ev, 'p) pipeline \<Rightarrow> ('ev, 'p) pipeline" where
  "launch sigs s =
     (let i = completed s + length (inProgress s);
          promise = length (launched s)
      in s\<lparr>launched := launched s @ [i],
            fetching := fetching s @ [(promise, sigs ! i)],
            inProgress := inProgress s @ [promise]\<rparr>)"

function startNext :: "sig_info list \<Rightarrow> ('ev, 'p) pipeline \<Rightarrow> ('ev, 'p) pipeline" where
  "startNext sigs s =
     (if length (inProgress s) < batchSize \<and> completed s + length (inProgress s) < length sigs
      then startNext sigs (launch sigs s) else s)"
  by pat_completeness auto
termination
  by (relation "measure (\<lambda>(sigs, s). length sigs - (completed s + length (inProgress s)))")
     (auto simp: launch_def Let_def)

declare startNext.simps [simp del]

text \<open>The executor of \<^verbatim>\<open>new Promise\<close> runs \<^verbatim>\<open>startNext()\<close> once, synchronously.\<close>

definition getTransactionDetails :: "sig_info list \<Rightarrow> ('ev, 'p) pipeline" where
  "getTransactionDetails sigs = startNext sigs init"

text \<open>
  \<^verbatim>\<open>getAllTransactions\<close>, after \<^verbatim>\<open>getSignatures\<close> has returned \<open>sigs\<close>: an empty
  list returns the empty array \<^verbatim>\<open>[]\<close> without calling \<^verbatim>\<open>getTransactionDetails\<close>.
\<close>

datatype 'a returned = EmptyArray | Awaits 'a

definition getAllTransactions :: "sig_info list \<Rightarrow> ('ev, 'p) pipeline returned" where
  "getAllTransactions sigs =
     (if length sigs = 0 then EmptyArray else Awaits (getTransactionDetails sigs))"

text \<open>The \<^verbatim>\<open>catch\<close> handler.\<close>

definition log_error :: "sig_info \<Rightarrow> ('ev, 'p) pipeline \<Rightarrow> ('ev, 'p) pipeline" where
  "log_error sig s = s\<lparr>errors := errors s @ [sig_signature sig]\<rparr>"

text \<open>
  \<^verbatim>\<open>resolve\<close> of a promise has an effect the first time only. The \<^verbatim>\<open>finally\<close> handler
  of a promise: delete it, count it, start what can be started, resolve when all are counted.
\<close>

definition resolve :: "sig_info list \<Rightarrow> ('ev, 'p) pipeline \<Rightarrow> ('ev, 'p) pipeline" where
  "resolve sigs s =
     (case resolved s of Some _ \<Rightarrow> s
      | None \<Rightarrow> s\<lparr>resolved := Some \<lparr>txCount = length sigs,
                                     pumpfunCount = length (transactions s)\<rparr>\<rparr>)"

definition finally_handler :: "sig_info list \<Rightarrow> nat \<Rightarrow> ('ev, 'p) pipeline \<Rightarrow> ('ev, 'p) pipeline" where
  "finally_handler sigs promise s =
     (let s1 = s\<lparr>inProgress := removeAll promise (inProgress s), completed := completed s + 1\<rparr>;
          s2 = startNext sigs s1
      in if completed s2 = length sigs then resolve sigs s2 else s2)"

text \<open>
  The minimal variant's \<^verbatim>\<open>then\<close> handler (source lines 358 to 370). The first call of
  \<^verbatim>\<open>parsePumpfunTx\<close> discards its result; spreading \<^verbatim>\<open>undefined\<close> adds no field.
\<close>

record tx_entry =
  entry_signature :: string
  entry_timestamp :: "int option"
  entry_slot :: nat
  entry_success :: bool
  entry_trade :: "trade option"

definition then_min ::
  "nat \<Rightarrow> sig_info \<Rightarrow> tx_response option \<Rightarrow> (tx_entry, 'p) pipeline
     \<Rightarrow> js_error + (tx_entry, 'p) pipeline" where
  "then_min promise sig r s =
     (case isPumpfunTx_min r of Inl e \<Rightarrow> Inl e | Inr pumpfunTxType \<Rightarrow>
        if pumpfunTxType \<noteq> 0 then
          (case r of None \<Rightarrow> Inl TypeError | Some tx \<Rightarrow>
          (case parsePumpfunTx_min tx of Inl e \<Rightarrow> Inl e | Inr _ \<Rightarrow>
          (case parsePumpfunTx_min tx of Inl e \<Rightarrow> Inl e | Inr parsed \<Rightarrow>
             Inr (s\<lparr>transactions := transactions s @
                      [\<lparr>entry_signature = sig_signature sig, entry_timestamp = tx_blockTime tx,
                        entry_slot = tx_slot tx, entry_success = tx_success tx,
                        entry_trade = parsed\<rparr>]\<rparr>))))
        else Inr s)"

text \<open>
  The full variant's \<^verbatim>\<open>then\<close> handler (source lines 174 to 183): the promise of
  \<^verbatim>\<open>parsePumpfunTx(tx)\<close> is not returned, so the handler ends at once and the chain goes on
  to \<^verbatim>\<open>finally\<close> while the parse is pending.
\<close>

definition then_full ::
  "(byte list \<Rightarrow> string option) \<Rightarrow> nat \<Rightarrow> sig_info \<Rightarrow> tx_response option
     \<Rightarrow> (PumpfunTxResult, js_error + PumpfunTxResult option) pipeline
     \<Rightarrow> js_error + (PumpfunTxResult, js_error + PumpfunTxResult option) pipeline" where
  "then_full metaplex promise sig r s =
     (case isPumpfunTx_full r of Inl e \<Rightarrow> Inl e | Inr pumpfunTxType \<Rightarrow>
        if pumpfunTxType \<noteq> 0 then
          (case r of None \<Rightarrow> Inl TypeError | Some tx \<Rightarrow>
             Inr (s\<lparr>parsing := parsing s @ [(promise, parsePumpfunTx_full metaplex tx)]\<rparr>))
        else Inr s)"

text \<open>
  The callback of the detached promise (source lines 178 to 181): show, then push. A
  rejected parse, an \<^verbatim>\<open>undefined\<close> result and a raising \<^verbatim>\<open>showPumpfunTx\<close> all end in a
  rejection that nothing handles, and nothing is pushed. What the runtime then does (a
  warning, or the end of the process) is not part of the script: \<open>unhandled\<close> counts these
  rejections and the run goes on, so what is proved of all runs holds up to that point
  of any run that the runtime cuts short.
\<close>

definition parsed_callback ::
  "js_error + PumpfunTxResult option
     \<Rightarrow> (PumpfunTxResult, js_error + PumpfunTxResult option) pipeline
     \<Rightarrow> (PumpfunTxResult, js_error + PumpfunTxResult option) pipeline" where
  "parsed_callback v s =
     (case v of Inl e \<Rightarrow> s\<lparr>unhandled := unhandled s + 1\<rparr>
      | Inr None \<Rightarrow> s\<lparr>unhandled := unhandled s + 1\<rparr>
      | Inr (Some parsed) \<Rightarrow>
          if showPumpfunTx_raises parsed then s\<lparr>unhandled := unhandled s + 1\<rparr>
          else s\<lparr>transactions := transactions s @ [parsed]\<rparr>)"

text \<open>The minimal variant has no detached promise.\<close>

definition no_callback :: "unit \<Rightarrow> (tx_entry, unit) pipeline \<Rightarrow> (tx_entry, unit) pipeline" where
  "no_callback v s = s"

subsection \<open>Runs\<close>

text \<open>
  What happens next is decided outside the program: which pending fetch settles, and how;
  when the rest of a settled chain runs; when a detached parse settles.
  \<^item> \<open>Settle p out\<close>: the fetch of promise \<open>p\<close> settles with \<open>out\<close> and its \<^verbatim>\<open>then\<close>
    handler runs, or its \<^verbatim>\<open>catch\<close> handler when the fetch was rejected or the \<^verbatim>\<open>then\<close>
    handler raised;
  \<^item> \<open>Finally p\<close>: the \<^verbatim>\<open>finally\<close> handler of \<open>p\<close> runs, after its \<open>Settle\<close>;
  \<^item> \<open>ParseDone p\<close>: the detached parse started by \<open>p\<close> settles and its callback runs.
  A step is \<open>None\<close> when the event cannot happen in the state. A run is a list of events
  from the state that \<^verbatim>\<open>getTransactionDetails\<close> leaves; every order of completion is
  some run.
\<close>

datatype event = Settle nat fetched | Finally nat | ParseDone nat

definition settle ::
  "(sig_info \<Rightarrow> tx_response option \<Rightarrow> ('ev, 'p) pipeline \<Rightarrow> js_error + ('ev, 'p) pipeline)
     \<Rightarrow> sig_info \<Rightarrow> fetched \<Rightarrow> ('ev, 'p) pipeline \<Rightarrow> ('ev, 'p) pipeline" where
  "settle handler sig out s =
     (case out of Rejected \<Rightarrow> log_error sig s
      | Fulfilled r \<Rightarrow> (case handler sig r s of Inl e \<Rightarrow> log_error sig s | Inr s' \<Rightarrow> s'))"

definition step ::
  "(nat \<Rightarrow> sig_info \<Rightarrow> tx_response option \<Rightarrow> ('ev, 'p) pipeline \<Rightarrow> js_error + ('ev, 'p) pipeline)
     \<Rightarrow> ('p \<Rightarrow> ('ev, 'p) pipeline \<Rightarrow> ('ev, 'p) pipeline)
     \<Rightarrow> sig_info list \<Rightarrow> ('ev, 'p) pipeline \<Rightarrow> event \<Rightarrow> ('ev, 'p) pipeline option" where
  "step handler callback sigs s ev =
     (case ev of
        Settle p out \<Rightarrow>
          (case map_of (fetching s) p of None \<Rightarrow> None
           | Some sig \<Rightarrow>
               Some (settle (handler p) sig out
                       (s\<lparr>fetching := filter (\<lambda>(q, _). q \<noteq> p) (fetching s)\<rparr>)))
      | Finally p \<Rightarrow>
          if p \<in> set (inProgress s) \<and> map_of (fetching s) p = None
          then Some (finally_handler sigs p s) else None
      | ParseDone p \<Rightarrow>
          (case map_of (parsing s) p of None \<Rightarrow> None
           | Some v \<Rightarrow>
               Some (callback v (s\<lparr>parsing := filter (\<lambda>(q, _). q \<noteq> p) (parsing s)\<rparr>))))"

fun exec :: "('s \<Rightarrow> event \<Rightarrow> 's option) \<Rightarrow> 's \<Rightarrow> event list \<Rightarrow> 's option" where
  "exec st s [] = Some s"
| "exec st s (ev # evs) = (case st s ev of None \<Rightarrow> None | Some s' \<Rightarrow> exec st s' evs)"

definition run_min :: "sig_info list \<Rightarrow> event list \<Rightarrow> (tx_entry, unit) pipeline option" where
  "run_min sigs evs = exec (step then_min no_callback sigs) (getTransactionDetails sigs) evs"

definition run_full ::
  "(byte list \<Rightarrow> string option) \<Rightarrow> sig_info list \<Rightarrow> event list
     \<Rightarrow> (PumpfunTxResult, js_error + PumpfunTxResult option) pipeline option" where
  "run_full metaplex sigs evs =
     exec (step (then_full metaplex) parsed_callback sigs) (getTransactionDetails sigs) evs"

text \<open>A state where nothing is pending: no event can happen any more.\<close>

definition quiescent :: "('ev, 'p) pipeline \<Rightarrow> bool" where
  "quiescent s = (inProgress s = [] \<and> fetching s = [] \<and> parsing s = [])"

section \<open>Invariants of the scheduler\<close>

text \<open>
  What holds of the shared variables between any two callbacks: the bound on the set, the
  bookkeeping of \<^verbatim>\<open>completed + inProgress.size\<close>, and what the pending promises are.
\<close>

definition inv1 :: "sig_info list \<Rightarrow> ('ev, 'p) pipeline \<Rightarrow> bool" where
  "inv1 sigs s \<longleftrightarrow>
     length (inProgress s) \<le> batchSize \<and>
     completed s + length (inProgress s) = length (launched s) \<and>
     launched s = [0..<length (launched s)] \<and>
     length (launched s) \<le> length sigs \<and>
     distinct (inProgress s) \<and> (\<forall>p\<in>set (inProgress s). p < length (launched s)) \<and>
     distinct (map fst (fetching s)) \<and> fst ` set (fetching s) \<subseteq> set (inProgress s) \<and>
     (\<forall>(p, sig)\<in>set (fetching s). sig = sigs ! p)"

text \<open>After \<^verbatim>\<open>startNext\<close> the window is full or every signature has been launched.\<close>

definition saturated :: "sig_info list \<Rightarrow> ('ev, 'p) pipeline \<Rightarrow> bool" where
  "saturated sigs s \<longleftrightarrow> length (inProgress s) = batchSize \<or> length (launched s) = length sigs"

definition res_inv :: "sig_info list \<Rightarrow> ('ev, 'p) pipeline \<Rightarrow> bool" where
  "res_inv sigs s \<longleftrightarrow>
     (resolved s \<noteq> None \<longleftrightarrow> sigs \<noteq> [] \<and> completed s = length sigs) \<and>
     (\<forall>r. resolved s = Some r \<longrightarrow> txCount r = length sigs)"

definition sched_inv :: "sig_info list \<Rightarrow> ('ev, 'p) pipeline \<Rightarrow> bool" where
  "sched_inv sigs s \<longleftrightarrow> inv1 sigs s \<and> saturated sigs s \<and> res_inv sigs s"

text \<open>A handler that leaves the scheduler's variables alone.\<close>

definition same_sched :: "('ev, 'p) pipeline \<Rightarrow> ('ev, 'p) pipeline \<Rightarrow> bool" where
  "same_sched s s' \<longleftrightarrow>
     inProgress s' = inProgress s \<and> completed s' = completed s \<and> launched s' = launched s \<and>
     fetching s' = fetching s \<and> resolved s' = resolved s"

text \<open>
  A bound on the events still to come: three per signature not yet launched (settle,
  finally, parse), and what is left of each promise under way.
\<close>

definition pending_work :: "sig_info list \<Rightarrow> ('ev, 'p) pipeline \<Rightarrow> nat" where
  "pending_work sigs s =
     3 * (length sigs - length (launched s)) + 2 * length (fetching s) + length (inProgress s)
       + length (parsing s)"

text \<open>
  After resolution: in the minimal variant the count in the result is the length of the
  array; in the full variant it is at most that length.
\<close>

definition min_post :: "(tx_entry, unit) pipeline \<Rightarrow> bool" where
  "min_post s \<longleftrightarrow>
     parsing s = [] \<and>
     (\<forall>r. resolved s = Some r \<longrightarrow> pumpfunCount r = length (transactions s))"

definition full_post ::
  "(PumpfunTxResult, js_error + PumpfunTxResult option) pipeline \<Rightarrow> bool" where
  "full_post s \<longleftrightarrow>
     (\<forall>r. resolved s = Some r \<longrightarrow> pumpfunCount r \<le> length (transactions s))"

text \<open>
  What containment of a failed fetch means in a state \<open>s\<close> of a run with step function
  \<open>st\<close>: a fetch that fails now is logged under its signature, changes neither the array
  nor the result, and its \<^verbatim>\<open>finally\<close> handler can run next and counts it; before all items
  are counted some pending promise can always move on, and the run can be continued
  until all items are counted; once all are counted the promise is resolved; and a
  resolved result reports the length of the input.
\<close>

definition failures_contained ::
  "(('ev, 'p) pipeline \<Rightarrow> event \<Rightarrow> ('ev, 'p) pipeline option) \<Rightarrow> sig_info list
     \<Rightarrow> ('ev, 'p) pipeline \<Rightarrow> bool" where
  "failures_contained st sigs s \<longleftrightarrow>
     (\<forall>p s'. st s (Settle p Rejected) = Some s' \<longrightarrow>
        transactions s' = transactions s \<and> errors s' = errors s @ [sig_signature (sigs ! p)] \<and>
        resolved s' = resolved s \<and>
        (\<exists>s''. st s' (Finally p) = Some s'' \<and> completed s'' = completed s + 1 \<and>
               transactions s'' = transactions s)) \<and>
     (completed s < length sigs \<longrightarrow>
        (\<exists>p\<in>set (inProgress s). st s (Settle p Rejected) \<noteq> None \<or> st s (Finally p) \<noteq> None)) \<and>
     (\<exists>evs s'. exec st s evs = Some s' \<and> completed s' = length sigs) \<and>
     (completed s = length sigs \<and> sigs \<noteq> [] \<longrightarrow> resolved s \<noteq> None) \<and>
     (\<forall>r. resolved s = Some r \<longrightarrow> txCount r = length sigs)"

text \<open>
  The order of launches: the index read by \<^verbatim>\<open>startNext\<close> is the number of promises
  launched before, so the indices read so far are \<open>0, 1, 2, \<dots>\<close> without gap or repetition,
  a pending fetch is for the signature at the index its launch read, and when all items
  are counted the indices read are exactly those of the list.
\<close>

definition launch_order :: "sig_info list \<Rightarrow> ('ev, 'p) pipeline \<Rightarrow> bool" where
  "launch_order sigs s \<longleftrightarrow>
     completed s + length (inProgress s) = length (launched s) \<and>
     launched s = [0..<length (launched s)] \<and>
     length (launched s) \<le> length sigs \<and>
     (\<forall>(p, sig)\<in>set (fetching s). sig = sigs ! (launched s ! p)) \<and>
     (completed s = length sigs \<longrightarrow> launched s = [0..<length sigs])"

section \<open>The payloads a transaction offers to the decoder\<close>

text \<open>
  The inner instructions in the order the loops visit them, and the payloads of those
  that reference the program. The loops read \<^verbatim>\<open>programId.equals\<close> of every instruction
  they pass, so they raise on one without a program id.
\<close>

definition inner_instruction_list :: "tx_response \<Rightarrow> instruction list" where
  "inner_instruction_list tx = concat (map instructions (inner_groups tx))"

definition well_formed_inner :: "tx_response \<Rightarrow> bool" where
  "well_formed_inner tx = list_all (\<lambda>i. programId i \<noteq> None) (inner_instruction_list tx)"

definition program_payloads :: "tx_response \<Rightarrow> byte list list" where
  "program_payloads tx =
     map data (filter (\<lambda>i. programId i = Some PUMPFUN_PROGRAM_ID) (inner_instruction_list tx))"

definition first_payload ::
  "(byte list \<Rightarrow> js_error + 'a option) \<Rightarrow> byte list list \<Rightarrow> js_error + 'a option" where
  "first_payload dec payloads =
     (case filter (\<lambda>b. dec b \<noteq> Inr None) payloads of [] \<Rightarrow> Inr None | b # _ \<Rightarrow> dec b)"

text \<open>The record the minimal variant pushes when \<^verbatim>\<open>parsePumpfunTx\<close> returns \<^verbatim>\<open>undefined\<close>.\<close>

definition bare_entry :: "sig_info \<Rightarrow> tx_response \<Rightarrow> tx_entry" where
  "bare_entry sig tx =
     \<lparr>entry_signature = sig_signature sig, entry_timestamp = tx_blockTime tx,
      entry_slot = tx_slot tx, entry_success = tx_success tx, entry_trade = None\<rparr>"

section \<open>Example inputs\<close>

definition sigA :: sig_info where
  "sigA = \<lparr>sig_signature = ''sigA'', sig_blockTime = None\<rparr>"

definition sigB :: sig_info where
  "sigB = \<lparr>sig_signature = ''sigB'', sig_blockTime = None\<rparr>"

definition pumpfun_instruction :: "byte list \<Rightarrow> instruction" where
  "pumpfun_instruction payload = \<lparr>programId = Some PUMPFUN_PROGRAM_ID, data = payload\<rparr>"

text \<open>
  A successful transaction whose outer instruction references the program, with the given
  log lines and inner-instruction groups.
\<close>

definition example_tx :: "string list \<Rightarrow> inner_instruction list \<Rightarrow> tx_response" where
  "example_tx logs groups =
     \<lparr>tx_transaction = Some \<lparr>message_instructions = Some [pumpfun_instruction []],
                               signatures = [''sigA'']\<rparr>,
      tx_meta = Some \<lparr>logMessages = Some logs, innerInstructions = Some groups, err = None\<rparr>,
      tx_slot = 7, tx_blockTime = Some 1738840559\<rparr>"

definition buy_tx :: "byte list \<Rightarrow> tx_response" where
  "buy_tx payload =
     example_tx [''Program log: Instruction: Buy'']
       [\<lparr>instructions = [pumpfun_instruction payload]\<rparr>]"

definition buy_tx_no_inner :: tx_response where
  "buy_tx_no_inner = example_tx [''Program log: Instruction: Buy''] []"

definition both_markers_tx :: tx_response where
  "both_markers_tx =
     example_tx [''Program log: Instruction: Sell'', ''Program log: Instruction: Buy''] []"

definition no_marker_tx :: tx_response where
  "no_marker_tx = example_tx [''Program log: Instruction: Create''] []"

definition token_name :: "byte list \<Rightarrow> string option" where
  "token_name m = Some ''Token''"

section \<open>The decoder reads the documented layout\<close>

lemma take8_drop:
  "off + 8 \<le> length bs \<Longrightarrow> take 8 (drop off bs) = map (\<lambda>k. bs ! (off + k)) [0..<8]"
  by (rule nth_equalityI) auto

lemma upt8: "[0..<8] = [0, 1, 2, 3, 4, 5, 6, 7 :: nat]"
  by (simp add: upt_rec)

lemma le_bytes_slice:
  "off + 8 \<le> length bs \<Longrightarrow> le_bytes (take 8 (js_slice off (off + 8) bs)) = u64_at bs off"
  by (simp add: js_slice_def take8_drop upt8 u64_at_def) (simp add: eval_nat_numeral)

lemma read_slice:
  "off + 8 \<le> length bs \<Longrightarrow> readBigInt64LE (js_slice off (off + 8) bs) = Inr (i64_at bs off)"
  using le_bytes_slice[of off bs]
  by (simp add: readBigInt64LE_def i64_at_def Let_def js_slice_def)

lemma read_short:
  "length bs < off + 8 \<Longrightarrow> readBigInt64LE (js_slice off (off + 8) bs) = Inl RangeError"
  by (simp add: readBigInt64LE_def js_slice_def)

lemma mint_slice: "48 \<le> length bs \<Longrightarrow> js_slice 16 48 bs = map (\<lambda>k. bs ! k) [16..<48]"
  unfolding js_slice_def by (rule nth_equalityI) (auto simp del: upt_rec_numeral)

lemma u64_at_unfold:
  "u64_at bs off =
     uint (bs ! off) + uint (bs ! (off + 1)) * 256 + uint (bs ! (off + 2)) * 256 ^ 2
   + uint (bs ! (off + 3)) * 256 ^ 3 + uint (bs ! (off + 4)) * 256 ^ 4
   + uint (bs ! (off + 5)) * 256 ^ 5 + uint (bs ! (off + 6)) * 256 ^ 6
   + uint (bs ! (off + 7)) * 256 ^ 7"
proof -
  have "{..<8::nat} = {0, 1, 2, 3, 4, 5, 6, 7}" by auto
  then show ?thesis by (simp add: u64_at_def)
qed

text \<open>A read is the unsigned value exactly when that value is below \<open>2 ^ 63\<close>.\<close>

lemma i64_at_unsigned_iff: "i64_at bs off = u64_at bs off \<longleftrightarrow> u64_at bs off < 2 ^ 63"
  by (simp add: i64_at_def)

lemmas decode_eval = js_slice_def readBigInt64LE_def byte_is_one_def toString_def nat_digits.simps
  digit_char_def

lemma decodeFull_other_length: "length encoded \<noteq> 137 \<Longrightarrow> decodeFull encoded = Inr None"
  by (simp add: decodeFull_def)

lemma decodeFull_137:
  assumes "length encoded = 137"
  shows "decodeFull encoded =
           Inr (Some \<lparr>solAmount = toString (i64_at encoded 48),
                      tokenAmount = toString (i64_at encoded 56),
                      isBuy = (encoded ! 64 = 1),
                      mint = map (\<lambda>k. encoded ! k) [16..<48],
                      timestamp = toString (i64_at encoded 97)\<rparr>)"
  using assms read_slice[of 48 encoded] read_slice[of 56 encoded] read_slice[of 97 encoded]
    mint_slice[of encoded]
  by (simp add: decodeFull_def byte_is_one_def)

lemma decodeFull_None_iff: "decodeFull b = Inr None \<longleftrightarrow> length b \<noteq> 137"
  using decodeFull_other_length[of b] decodeFull_137[of b] by auto

lemma decodeMinimal_short:
  assumes short: "length encoded < 64"
  shows "decodeMinimal encoded = Inl RangeError"
proof (cases "length encoded < 56")
  case True
  then show ?thesis using read_short[of encoded 48] by (simp add: decodeMinimal_def)
next
  case False
  then show ?thesis using short read_short[of encoded 56] read_slice[of 48 encoded]
    by (simp add: decodeMinimal_def)
qed

lemma decodeMinimal_long:
  assumes "64 \<le> length encoded"
  shows "decodeMinimal encoded =
           Inr \<lparr>solAmount = toString (i64_at encoded 48),
                tokenAmount = toString (i64_at encoded 56),
                isBuy = (64 < length encoded \<and> encoded ! 64 = 1)\<rparr>"
  using assms read_slice[of 48 encoded] read_slice[of 56 encoded]
  by (simp add: decodeMinimal_def byte_is_one_def)

subsection \<open>The fixture of the source's closing comment\<close>

lemma length_fixture: "length fixture = 137"
  by (simp add: fixture_def)

lemma i64_fixture:
  "i64_at fixture 48 = 491103214" "i64_at fixture 56 = 12256633644127"
  "i64_at fixture 97 = 1738840559"
  by (simp_all add: i64_at_def u64_at_unfold fixture_def)

lemma toString_fixture:
  "toString 491103214 = ''491103214''" "toString 12256633644127 = ''12256633644127''"
  "toString 1738840559 = ''1738840559''"
  by (simp_all add: toString_def nat_digits.simps digit_char_def)

text \<open>
  On the documented payload both variants give the documented amounts, and \<open>isBuy\<close> is true:
  the byte \<open>01\<close> that the comment annotates as false compares equal to 1.
\<close>

lemma decodeFull_fixture:
  "decodeFull fixture =
     Inr (Some \<lparr>solAmount = ''491103214'', tokenAmount = ''12256633644127'', isBuy = True,
                mint = js_slice 16 48 fixture, timestamp = ''1738840559''\<rparr>)"
  unfolding decodeFull_def
  by (simp add: length_fixture) (simp add: fixture_def decode_eval)

lemma decodeMinimal_fixture:
  "decodeMinimal fixture =
     Inr \<lparr>solAmount = ''491103214'', tokenAmount = ''12256633644127'', isBuy = True\<rparr>"
  by (simp add: decodeMinimal_def fixture_def decode_eval)

subsection \<open>What the scan of the inner instructions returns\<close>

text \<open>
  On a transaction whose inner instructions all carry a program id, the nested loops
  return what the decoder makes of the first payload of the program that it does not
  pass over.
\<close>

lemma scan_instructions_append:
  "scan_instructions dec (xs @ ys) =
     (case scan_instructions dec xs of Inr None \<Rightarrow> scan_instructions dec ys | r \<Rightarrow> r)"
  by (induction xs) (auto split: option.splits sum.splits)

lemma scan_groups_flat:
  "scan_groups dec gs = scan_instructions dec (concat (map instructions gs))"
  by (induction gs) (auto simp: scan_instructions_append split: option.splits sum.splits)

lemma scan_instructions_payloads:
  "list_all (\<lambda>i. programId i \<noteq> None) xs \<Longrightarrow>
   scan_instructions dec xs =
     first_payload dec (map data (filter (\<lambda>i. programId i = Some PUMPFUN_PROGRAM_ID) xs))"
  by (induction xs) (auto simp: first_payload_def split: option.splits sum.splits)

lemma scan_groups_payloads:
  "well_formed_inner tx \<Longrightarrow> scan_groups dec (inner_groups tx) = first_payload dec (program_payloads tx)"
  by (simp add: scan_groups_flat scan_instructions_payloads well_formed_inner_def program_payloads_def
      inner_instruction_list_def)

lemma parse_min_payloads:
  assumes "well_formed_inner tx"
  shows "parsePumpfunTx_min tx =
           (case program_payloads tx of [] \<Rightarrow> Inr None
            | b # _ \<Rightarrow> (case decodeMinimal b of Inl e \<Rightarrow> Inl e | Inr t \<Rightarrow> Inr (Some t)))"
proof -
  let ?dec = "\<lambda>encoded. case decodeMinimal encoded of Inl e \<Rightarrow> Inl e | Inr t \<Rightarrow> Inr (Some t)"
  have "filter (\<lambda>b. ?dec b \<noteq> Inr None) bs = bs" for bs
    by (induction bs) (auto split: sum.splits)
  then have "first_payload ?dec bs = (case bs of [] \<Rightarrow> Inr None | b # _ \<Rightarrow> ?dec b)" for bs
    by (simp add: first_payload_def)
  then show ?thesis
    using scan_groups_payloads[OF assms, of ?dec] by (simp add: parsePumpfunTx_min_def)
qed

lemma parse_full_none:
  assumes "well_formed_inner tx" "list_all (\<lambda>b. length b \<noteq> 137) (program_payloads tx)"
  shows "parsePumpfunTx_full metaplex tx = Inr None"
proof -
  have "filter (\<lambda>b. decodeFull b \<noteq> Inr None) (program_payloads tx) = []"
    using assms(2) by (simp add: decodeFull_None_iff list_all_iff)
  then have "scan_groups decodeFull (inner_groups tx) = Inr None"
    using scan_groups_payloads[OF assms(1), of decodeFull] by (simp add: first_payload_def)
  then show ?thesis by (simp add: parsePumpfunTx_full_def)
qed

lemma buy_tx_payloads:
  "well_formed_inner (buy_tx payload)" "program_payloads (buy_tx payload) = [payload]"
  by (simp_all add: well_formed_inner_def program_payloads_def inner_instruction_list_def
      inner_groups_def buy_tx_def example_tx_def pumpfun_instruction_def)

subsection \<open>The claims about the decoder\<close>

text \<open>
  C3. In the full variant a payload whose length is not 137 is passed over (the loop
  continues; nothing is decoded from it), whatever the length, 136 and 138 included. A
  payload of 137 bytes is decoded: the mint is bytes 16 to 47, \<open>isBuy\<close> says whether byte
  64 is 1, and \<open>solAmount\<close>, \<open>tokenAmount\<close> and \<open>timestamp\<close> are the decimal strings of the
  eight bytes at 48, 56 and 97, little-endian; no read is out of range. When none of
  the program's payloads in a transaction has 137 bytes, \<^verbatim>\<open>parsePumpfunTx\<close> returns
  \<^verbatim>\<open>undefined\<close>.
\<close>

theorem C3_full_mode_requires_137_bytes:
  "(length encoded \<noteq> 137 \<longrightarrow> decodeFull encoded = Inr None) \<and>
   (length encoded = 137 \<longrightarrow>
      decodeFull encoded =
        Inr (Some \<lparr>solAmount = toString (i64_at encoded 48),
                   tokenAmount = toString (i64_at encoded 56),
                   isBuy = (encoded ! 64 = 1),
                   mint = map (\<lambda>k. encoded ! k) [16..<48],
                   timestamp = toString (i64_at encoded 97)\<rparr>)) \<and>
   (well_formed_inner tx \<and> list_all (\<lambda>b. length b \<noteq> 137) (program_payloads tx) \<longrightarrow>
      parsePumpfunTx_full metaplex tx = Inr None)"
  using decodeFull_other_length[of encoded] decodeFull_137[of encoded]
    parse_full_none[of tx metaplex]
  by blast

text \<open>
  C3 at the fixture, at its first 136 bytes and at 138 bytes, and at a buy whose only
  payload is the first 136 bytes.
\<close>

theorem C3_witness:
  "length fixture = 137 \<and>
   decodeFull fixture =
     Inr (Some \<lparr>solAmount = ''491103214'', tokenAmount = ''12256633644127'', isBuy = True,
                mint = map (\<lambda>k. fixture ! k) [16..<48], timestamp = ''1738840559''\<rparr>) \<and>
   length (butlast fixture) \<noteq> 137 \<and> decodeFull (butlast fixture) = Inr None \<and>
   length (fixture @ [0]) \<noteq> 137 \<and> decodeFull (fixture @ [0]) = Inr None \<and>
   well_formed_inner (buy_tx (butlast fixture)) \<and>
   list_all (\<lambda>b. length b \<noteq> 137) (program_payloads (buy_tx (butlast fixture))) \<and>
   parsePumpfunTx_full token_name (buy_tx (butlast fixture)) = Inr None"
proof -
  have b: "fixture ! 64 = 1" by (simp add: fixture_def)
  show ?thesis
    using C3_full_mode_requires_137_bytes[of fixture]
      C3_full_mode_requires_137_bytes[of "butlast fixture" "buy_tx (butlast fixture)" token_name]
      C3_full_mode_requires_137_bytes[of "fixture @ [0]"]
    by (simp add: length_fixture i64_fixture toString_fixture b buy_tx_payloads)
qed

text \<open>
  C4, as the specification states it, fails at 64 bytes: the first 64 bytes of the fixture
  decode in the minimal variant. Reading byte 64 of a 64-byte array gives \<^verbatim>\<open>undefined\<close>,
  which is not equal to 1, so \<open>isBuy\<close> is false although the payload was cut from a buy.
\<close>

theorem C4_counterexample_64_bytes_decode:
  "length (take 64 fixture) = 64 \<and>
   decodeMinimal (take 64 fixture) =
     Inr \<lparr>solAmount = ''491103214'', tokenAmount = ''12256633644127'', isBuy = False\<rparr>"
  by (simp add: length_fixture) (simp add: decodeMinimal_def fixture_def decode_eval)

text \<open>
  C4, amended. In the minimal variant a payload shorter than 64 bytes makes one of the two
  eight-byte reads raise a \<^verbatim>\<open>RangeError\<close>; a payload of 64 bytes or more is decoded:
  \<open>solAmount\<close> and \<open>tokenAmount\<close> are the decimal strings of the eight bytes at 48 and 56,
  and \<open>isBuy\<close> says whether there is a byte 64 and it is 1.
\<close>

theorem C4_minimal_mode_needs_64_bytes:
  "(length encoded < 64 \<longrightarrow> decodeMinimal encoded = Inl RangeError) \<and>
   (64 \<le> length encoded \<longrightarrow>
      decodeMinimal encoded =
        Inr \<lparr>solAmount = toString (i64_at encoded 48),
             tokenAmount = toString (i64_at encoded 56),
             isBuy = (64 < length encoded \<and> encoded ! 64 = 1)\<rparr>)"
  using decodeMinimal_short[of encoded] decodeMinimal_long[of encoded] by blast

lemma i64_take_fixture:
  "i64_at (take 65 fixture) 48 = 491103214" "i64_at (take 65 fixture) 56 = 12256633644127"
  by (simp_all add: i64_at_def u64_at_unfold fixture_def)

text \<open>C4 amended, at the first 63 and the first 65 bytes of the fixture.\<close>

theorem C4_witness:
  "length (take 63 fixture) < 64 \<and> decodeMinimal (take 63 fixture) = Inl RangeError \<and>
   64 \<le> length (take 65 fixture) \<and>
   decodeMinimal (take 65 fixture) =
     Inr \<lparr>solAmount = ''491103214'', tokenAmount = ''12256633644127'', isBuy = True\<rparr>"
proof -
  have b: "take 65 fixture ! 64 = 1" by (simp add: fixture_def)
  show ?thesis
    using C4_minimal_mode_needs_64_bytes[of "take 63 fixture"]
      C4_minimal_mode_needs_64_bytes[of "take 65 fixture"]
    by (simp add: length_fixture i64_take_fixture toString_fixture b)
qed

text \<open>
  C9. The source's comment documents \<open>solAmount\<close> and \<open>tokenAmount\<close> as \<^verbatim>\<open>u64-LE\<close>, and
  the code reads them with \<^verbatim>\<open>readBigInt64LE\<close>, the signed read. On the fixture with the
  top bit of byte 55 set, the unsigned integer at bytes 48 to 55 is 9223372037345879022
  and both variants return the negative \<open>-9223372036363672594\<close>.
\<close>

theorem C9_high_bit_amount_is_read_negative:
  "length fixture_high = 137 \<and>
   toString (u64_at fixture_high 48) = ''9223372037345879022'' \<and>
   decodeMinimal fixture_high =
     Inr \<lparr>solAmount = ''-9223372036363672594'', tokenAmount = ''12256633644127'',
          isBuy = True\<rparr> \<and>
   decodeFull fixture_high =
     Inr (Some \<lparr>solAmount = ''-9223372036363672594'', tokenAmount = ''12256633644127'',
                isBuy = True, mint = js_slice 16 48 fixture_high,
                timestamp = ''1738840559''\<rparr>)"
proof -
  have l: "length fixture_high = 137" by (simp add: fixture_high_def length_fixture)
  have u: "toString (u64_at fixture_high 48) = ''9223372037345879022''"
    by (simp add: u64_at_unfold fixture_high_def fixture_def)
       (simp add: toString_def nat_digits.simps digit_char_def)
  have m: "decodeMinimal fixture_high =
     Inr \<lparr>solAmount = ''-9223372036363672594'', tokenAmount = ''12256633644127'',
          isBuy = True\<rparr>"
    by (simp add: decodeMinimal_def) (simp add: fixture_high_def fixture_def decode_eval)
  have f: "decodeFull fixture_high =
     Inr (Some \<lparr>solAmount = ''-9223372036363672594'', tokenAmount = ''12256633644127'',
                isBuy = True, mint = js_slice 16 48 fixture_high,
                timestamp = ''1738840559''\<rparr>)"
    unfolding decodeFull_def
    by (simp add: l) (simp add: fixture_high_def fixture_def decode_eval)
  show ?thesis using l u m f by simp
qed

section \<open>The claim about the classifier\<close>

text \<open>
  C8. For a transaction whose outer instructions reference the program and whose log
  messages are present: when some line contains the Buy marker and some line contains the
  Sell marker, both variants of \<^verbatim>\<open>isPumpfunTx\<close> return 1 (buy); when no line contains
  either marker, both return 0 (not pumpfun).
\<close>

theorem C8_buy_marker_wins:
  assumes "tx_transaction tx = Some body" and "message_instructions body = Some ins"
    and "references_pumpfun ins" and "tx_meta tx = Some m" and "logMessages m = Some logs"
  shows "(list_ex (\<lambda>l. str_includes l ''Program log: Instruction: Buy'') logs \<and>
          list_ex (\<lambda>l. str_includes l ''Program log: Instruction: Sell'') logs \<longrightarrow>
            isPumpfunTx_full (Some tx) = Inr 1 \<and> isPumpfunTx_min (Some tx) = Inr 1) \<and>
         (\<not> list_ex (\<lambda>l. str_includes l ''Program log: Instruction: Buy'') logs \<and>
          \<not> list_ex (\<lambda>l. str_includes l ''Program log: Instruction: Sell'') logs \<longrightarrow>
            isPumpfunTx_full (Some tx) = Inr 0 \<and> isPumpfunTx_min (Some tx) = Inr 0)"
  using assms by (simp add: isPumpfunTx_full_def isPumpfunTx_min_def log_type_def)

text \<open>C8 at a transaction logging Sell then Buy, and at one logging neither.\<close>

theorem C8_witness:
  "isPumpfunTx_full (Some both_markers_tx) = Inr 1 \<and>
   isPumpfunTx_min (Some both_markers_tx) = Inr 1 \<and>
   isPumpfunTx_full (Some no_marker_tx) = Inr 0 \<and>
   isPumpfunTx_min (Some no_marker_tx) = Inr 0"
  using C8_buy_marker_wins[of both_markers_tx
      "\<lparr>message_instructions = Some [pumpfun_instruction []], signatures = [''sigA'']\<rparr>"
      "[pumpfun_instruction []]"
      "\<lparr>logMessages = Some [''Program log: Instruction: Sell'', ''Program log: Instruction: Buy''],
        innerInstructions = Some [], err = None\<rparr>"
      "[''Program log: Instruction: Sell'', ''Program log: Instruction: Buy'']"]
    C8_buy_marker_wins[of no_marker_tx
      "\<lparr>message_instructions = Some [pumpfun_instruction []], signatures = [''sigA'']\<rparr>"
      "[pumpfun_instruction []]"
      "\<lparr>logMessages = Some [''Program log: Instruction: Create''],
        innerInstructions = Some [], err = None\<rparr>"
      "[''Program log: Instruction: Create'']"]
  by (simp add: both_markers_tx_def no_marker_tx_def example_tx_def references_pumpfun_def
      pumpfun_instruction_def)

section \<open>The scheduler keeps its invariant\<close>

subsection \<open>The loop of \<^verbatim>\<open>startNext\<close>\<close>

lemma startNext_go:
  "length (inProgress s) < batchSize \<Longrightarrow> completed s + length (inProgress s) < length sigs
   \<Longrightarrow> startNext sigs s = startNext sigs (launch sigs s)"
  by (subst startNext.simps) simp

lemma startNext_stop:
  "\<not> (length (inProgress s) < batchSize \<and> completed s + length (inProgress s) < length sigs)
   \<Longrightarrow> startNext sigs s = s"
  by (subst startNext.simps) auto

lemma launch_inv1:
  assumes "inv1 sigs s" "length (inProgress s) < batchSize" "completed s + length (inProgress s) < length sigs"
  shows "inv1 sigs (launch sigs s)"
proof -
  let ?n = "length (launched s)"
  from assms(1) have a: "completed s + length (inProgress s) = ?n" "launched s = [0..<?n]"
    "distinct (inProgress s)" "\<forall>p\<in>set (inProgress s). p < ?n"
    "distinct (map fst (fetching s))" "fst ` set (fetching s) \<subseteq> set (inProgress s)"
    "\<forall>(p, sig)\<in>set (fetching s). sig = sigs ! p"
    by (simp_all add: inv1_def)
  have l: "launched s @ [?n] = [0..<Suc ?n]" using a(2) by simp
  have f: "?n \<notin> fst ` set (fetching s)" using a(4,6) by blast
  have i: "?n \<notin> set (inProgress s)" using a(4) by blast
  show ?thesis
    unfolding inv1_def launch_def Let_def
    using assms(2,3) a l f i by (auto simp del: upt_Suc)
qed

lemma startNext_inv1: "inv1 sigs s \<Longrightarrow> inv1 sigs (startNext sigs s)"
proof (induction sigs s rule: startNext.induct)
  case (1 sigs s)
  show ?case
  proof (cases "length (inProgress s) < batchSize \<and> completed s + length (inProgress s) < length sigs")
    case True
    then have "inv1 sigs (launch sigs s)" using "1.prems" launch_inv1 by blast
    then show ?thesis using "1.IH" True by (simp add: startNext_go)
  next
    case False
    then show ?thesis using "1.prems" by (simp add: startNext_stop)
  qed
qed

lemma startNext_saturated: "inv1 sigs s \<Longrightarrow> saturated sigs (startNext sigs s)"
proof (induction sigs s rule: startNext.induct)
  case (1 sigs s)
  show ?case
  proof (cases "length (inProgress s) < batchSize \<and> completed s + length (inProgress s) < length sigs")
    case True
    then have "inv1 sigs (launch sigs s)" using "1.prems" launch_inv1 by blast
    then show ?thesis using "1.IH" True by (simp add: startNext_go)
  next
    case False
    have "startNext sigs s = s" using False by (rule startNext_stop)
    moreover have "saturated sigs s" using False "1.prems" unfolding saturated_def inv1_def by linarith
    ultimately show ?thesis by simp
  qed
qed

lemma startNext_frame:
  "transactions (startNext sigs s) = transactions s \<and> completed (startNext sigs s) = completed s \<and>
   parsing (startNext sigs s) = parsing s \<and> errors (startNext sigs s) = errors s \<and>
   unhandled (startNext sigs s) = unhandled s \<and> resolved (startNext sigs s) = resolved s"
proof (induction sigs s rule: startNext.induct)
  case (1 sigs s)
  show ?case
  proof (cases "length (inProgress s) < batchSize \<and> completed s + length (inProgress s) < length sigs")
    case True
    then show ?thesis using "1.IH" by (simp add: startNext_go launch_def Let_def)
  next
    case False
    then show ?thesis by (simp add: startNext_stop)
  qed
qed

lemma inv1_init: "inv1 sigs init"
  by (simp add: inv1_def init_def)

subsection \<open>The handlers\<close>

lemma same_sched_inv:
  "same_sched s s' \<Longrightarrow> sched_inv sigs s \<Longrightarrow> sched_inv sigs s'"
  by (simp add: same_sched_def sched_inv_def inv1_def saturated_def res_inv_def)

lemma same_sched_log_error: "same_sched s (log_error sig s)"
  by (simp add: same_sched_def log_error_def)

lemma then_min_same: "then_min p sig r s = Inr s' \<Longrightarrow> same_sched s s' \<and> parsing s' = parsing s"
  by (auto simp: then_min_def same_sched_def split: sum.splits if_splits option.splits)

lemma then_full_same:
  "then_full mp p sig r s = Inr s' \<Longrightarrow> same_sched s s' \<and> length (parsing s') \<le> Suc (length (parsing s))"
  by (auto simp: then_full_def same_sched_def split: sum.splits if_splits option.splits)

lemma parsed_callback_same: "same_sched s (parsed_callback v s) \<and> parsing (parsed_callback v s) = parsing s"
  by (auto simp: parsed_callback_def same_sched_def split: sum.splits if_splits option.splits)

lemma no_callback_same: "same_sched s (no_callback v s) \<and> parsing (no_callback v s) = parsing s"
  by (simp add: no_callback_def same_sched_def)

lemma settle_same:
  assumes "\<And>r s'. handler sig r s = Inr s' \<Longrightarrow> same_sched s s'"
  shows "same_sched s (settle handler sig out s)"
  using assms same_sched_log_error[of s sig]
  by (auto simp: settle_def split: fetched.splits sum.splits)

lemma drop_fetching_inv:
  assumes "sched_inv sigs s"
  shows "sched_inv sigs (s\<lparr>fetching := filter (\<lambda>(q, _). q \<noteq> p) (fetching s)\<rparr>)"
proof -
  have "distinct (map fst (fetching s)) \<Longrightarrow> distinct (map fst (filter (\<lambda>(q, _). q \<noteq> p) (fetching s)))"
    by (rule distinct_map_filter)
  then show ?thesis using assms
    by (auto simp: sched_inv_def inv1_def saturated_def res_inv_def)
qed

lemma length_removeAll_distinct:
  "distinct xs \<Longrightarrow> x \<in> set xs \<Longrightarrow> Suc (length (removeAll x xs)) = length xs"
  by (induction xs) auto

lemma map_of_None_fst: "map_of xs p = None \<Longrightarrow> p \<notin> fst ` set xs"
  by (simp add: map_of_eq_None_iff)

lemma finally_inv:
  assumes inv: "sched_inv sigs s" and p: "p \<in> set (inProgress s)" and np: "map_of (fetching s) p = None"
  shows "sched_inv sigs (finally_handler sigs p s)"
proof -
  let ?s1 = "s\<lparr>inProgress := removeAll p (inProgress s), completed := completed s + 1\<rparr>"
  let ?s2 = "startNext sigs ?s1"
  from inv have i1: "inv1 sigs s" and ri: "res_inv sigs s" by (simp_all add: sched_inv_def)
  have len: "Suc (length (removeAll p (inProgress s))) = length (inProgress s)"
    using i1 p by (simp add: inv1_def length_removeAll_distinct)
  have nf: "p \<notin> fst ` set (fetching s)" using np by (rule map_of_None_fst)
  have i1': "inv1 sigs ?s1"
    using i1 len nf unfolding inv1_def by (auto simp: distinct_removeAll)
  have i2: "inv1 sigs ?s2" using i1' by (rule startNext_inv1)
  have sat: "saturated sigs ?s2" using i1' by (rule startNext_saturated)
  have fr: "completed ?s2 = completed s + 1" "resolved ?s2 = resolved s" "transactions ?s2 = transactions s"
    using startNext_frame[of sigs ?s1] by simp_all
  have lt: "completed s < length sigs" using i1 p len unfolding inv1_def by linarith
  then have none: "resolved s = None" using ri by (auto simp: res_inv_def)
  show ?thesis
  proof (cases "completed ?s2 = length sigs")
    case True
    then have fh: "finally_handler sigs p s = resolve sigs ?s2" by (simp add: finally_handler_def Let_def)
    have "sigs \<noteq> []" using lt by auto
    then show ?thesis unfolding fh using i2 sat True fr none
      by (simp add: sched_inv_def resolve_def inv1_def saturated_def res_inv_def)
  next
    case False
    then have fh: "finally_handler sigs p s = ?s2" by (simp add: finally_handler_def Let_def)
    show ?thesis unfolding fh using i2 sat False fr none
      by (simp add: sched_inv_def res_inv_def)
  qed
qed

lemma step_inv:
  assumes H: "\<And>p sig r s s'. handler p sig r s = Inr s' \<Longrightarrow> same_sched s s'"
    and C: "\<And>v s. same_sched s (callback v s)"
    and inv: "sched_inv sigs s" and st: "step handler callback sigs s ev = Some s'"
  shows "sched_inv sigs s'"
proof (cases ev)
  case (Settle p out)
  then obtain sig where s': "s' = settle (handler p) sig out (s\<lparr>fetching := filter (\<lambda>(q, _). q \<noteq> p) (fetching s)\<rparr>)"
    using st by (auto simp: step_def split: option.splits)
  show ?thesis unfolding s'
    by (rule same_sched_inv[OF settle_same drop_fetching_inv[OF inv]]) (rule H)
next
  case (Finally p)
  then show ?thesis using st inv finally_inv by (auto simp: step_def split: if_splits)
next
  case (ParseDone p)
  then obtain v where s': "s' = callback v (s\<lparr>parsing := filter (\<lambda>(q, _). q \<noteq> p) (parsing s)\<rparr>)"
    using st by (auto simp: step_def split: option.splits)
  have "sched_inv sigs (s\<lparr>parsing := filter (\<lambda>(q, _). q \<noteq> p) (parsing s)\<rparr>)"
    using inv by (simp add: sched_inv_def inv1_def saturated_def res_inv_def)
  then show ?thesis unfolding s' using C same_sched_inv by blast
qed

lemma exec_invariant:
  assumes "exec st s evs = Some s'" "P s" "\<And>s ev s'. P s \<Longrightarrow> st s ev = Some s' \<Longrightarrow> P s'"
  shows "P s'"
  using assms by (induction evs arbitrary: s) (auto split: option.splits)

lemma start_inv: "sched_inv sigs (getTransactionDetails sigs :: ('ev, 'p) pipeline)"
proof -
  have i: "inv1 sigs (init :: ('ev, 'p) pipeline)" by (rule inv1_init)
  have "resolved (startNext sigs (init :: ('ev, 'p) pipeline)) = None" "completed (startNext sigs (init :: ('ev, 'p) pipeline)) = 0"
    using startNext_frame[of sigs "init :: ('ev, 'p) pipeline"] by (simp_all add: init_def)
  then have "res_inv sigs (startNext sigs (init :: ('ev, 'p) pipeline))" by (auto simp: res_inv_def)
  then show ?thesis using startNext_inv1[OF i] startNext_saturated[OF i]
    by (simp add: sched_inv_def getTransactionDetails_def)
qed

lemma run_min_inv: "run_min sigs evs = Some s \<Longrightarrow> sched_inv sigs s"
  unfolding run_min_def
  by (erule exec_invariant[where P = "sched_inv sigs"])
     (auto intro: start_inv elim: step_inv[rotated 2] simp: then_min_same no_callback_same)

lemma run_full_inv: "run_full mp sigs evs = Some s \<Longrightarrow> sched_inv sigs s"
  unfolding run_full_def
  by (erule exec_invariant[where P = "sched_inv sigs"])
     (auto intro: start_inv elim: step_inv[rotated 2] simp: then_full_same parsed_callback_same)

subsection \<open>Every run is finite and can go on until all items are counted\<close>

lemma pending_work_launch:
  assumes "inv1 sigs s" "completed s + length (inProgress s) < length sigs"
  shows "pending_work sigs (launch sigs s) = pending_work sigs s"
proof -
  have "length (launched s) < length sigs" using assms by (simp add: inv1_def)
  then show ?thesis by (simp add: pending_work_def launch_def Let_def)
qed

lemma pending_work_startNext: "inv1 sigs s \<Longrightarrow> pending_work sigs (startNext sigs s) = pending_work sigs s"
proof (induction sigs s rule: startNext.induct)
  case (1 sigs s)
  show ?case
  proof (cases "length (inProgress s) < batchSize \<and> completed s + length (inProgress s) < length sigs")
    case True
    then have "inv1 sigs (launch sigs s)" using "1.prems" launch_inv1 by blast
    then show ?thesis using "1.IH" True "1.prems" by (simp add: startNext_go pending_work_launch)
  next
    case False
    then show ?thesis by (simp add: startNext_stop)
  qed
qed

lemma map_of_Some_filter_less:
  "map_of xs p = Some v \<Longrightarrow> length (filter (\<lambda>(q, _). q \<noteq> p) xs) < length xs"
  by (rule length_filter_less[of "(p, v)"]) (auto dest: map_of_SomeD)

lemma same_sched_work:
  "same_sched s s' \<Longrightarrow> pending_work sigs s' + length (parsing s) = pending_work sigs s + length (parsing s')"
  by (simp add: same_sched_def pending_work_def)

lemma settle_parsing:
  assumes "\<And>r s'. handler sig r s = Inr s' \<Longrightarrow> length (parsing s') \<le> Suc (length (parsing s))"
  shows "length (parsing (settle handler sig out s)) \<le> Suc (length (parsing s))"
  using assms by (auto simp: settle_def log_error_def split: fetched.splits sum.splits)

lemma finally_work:
  assumes inv: "sched_inv sigs s" and p: "p \<in> set (inProgress s)" and np: "map_of (fetching s) p = None"
  shows "Suc (pending_work sigs (finally_handler sigs p s)) = pending_work sigs s"
proof -
  let ?s1 = "s\<lparr>inProgress := removeAll p (inProgress s), completed := completed s + 1\<rparr>"
  let ?s2 = "startNext sigs ?s1"
  from inv have i1: "inv1 sigs s" by (simp add: sched_inv_def)
  have len: "Suc (length (removeAll p (inProgress s))) = length (inProgress s)"
    using i1 p by (simp add: inv1_def length_removeAll_distinct)
  have nf: "p \<notin> fst ` set (fetching s)" using np by (rule map_of_None_fst)
  have i1': "inv1 sigs ?s1"
    using i1 len nf unfolding inv1_def by (auto simp: distinct_removeAll)
  have w1: "Suc (pending_work sigs ?s1) = pending_work sigs s"
    using len by (simp add: pending_work_def)
  have w2: "pending_work sigs ?s2 = pending_work sigs ?s1" using i1' by (rule pending_work_startNext)
  have "pending_work sigs (finally_handler sigs p s) = pending_work sigs ?s2"
    by (simp add: finally_handler_def Let_def resolve_def pending_work_def split: option.splits)
  then show ?thesis using w1 w2 by simp
qed

lemma step_work:
  assumes H: "\<And>p sig r s s'. handler p sig r s = Inr s' \<Longrightarrow> same_sched s s' \<and> length (parsing s') \<le> Suc (length (parsing s))"
    and C: "\<And>v s. same_sched s (callback v s) \<and> parsing (callback v s) = parsing s"
    and inv: "sched_inv sigs s" and st: "step handler callback sigs s ev = Some s'"
  shows "pending_work sigs s' < pending_work sigs s"
proof (cases ev)
  case (Settle p out)
  let ?s0 = "s\<lparr>fetching := filter (\<lambda>(q, _). q \<noteq> p) (fetching s)\<rparr>"
  from Settle obtain sig where sg: "map_of (fetching s) p = Some sig" and s': "s' = settle (handler p) sig out ?s0"
    using st by (auto simp: step_def split: option.splits)
  have a: "Suc (Suc (pending_work sigs ?s0)) \<le> pending_work sigs s"
    using map_of_Some_filter_less[OF sg] by (simp add: pending_work_def)
  have b: "same_sched ?s0 s'" unfolding s' by (rule settle_same) (simp add: H)
  have c: "length (parsing s') \<le> Suc (length (parsing ?s0))" unfolding s' using H by (intro settle_parsing) fastforce
  show ?thesis using a same_sched_work[OF b, of sigs] c by linarith
next
  case (Finally p)
  then show ?thesis using st inv finally_work[of sigs s p] by (auto simp: step_def split: if_splits)
next
  case (ParseDone p)
  let ?s0 = "s\<lparr>parsing := filter (\<lambda>(q, _). q \<noteq> p) (parsing s)\<rparr>"
  from ParseDone obtain v where sg: "map_of (parsing s) p = Some v" and s': "s' = callback v ?s0"
    using st by (auto simp: step_def split: option.splits)
  have a: "pending_work sigs ?s0 < pending_work sigs s"
    using map_of_Some_filter_less[OF sg] by (simp add: pending_work_def)
  have "pending_work sigs s' = pending_work sigs ?s0"
    unfolding s' using C[of ?s0 v] by (simp add: same_sched_def pending_work_def)
  then show ?thesis using a by simp
qed

lemma exec_bounded:
  assumes H: "\<And>p sig r s s'. handler p sig r s = Inr s' \<Longrightarrow> same_sched s s' \<and> length (parsing s') \<le> Suc (length (parsing s))"
    and C: "\<And>v s. same_sched s (callback v s) \<and> parsing (callback v s) = parsing s"
  shows "sched_inv sigs s \<Longrightarrow> exec (step handler callback sigs) s evs = Some s'
         \<Longrightarrow> length evs + pending_work sigs s' \<le> pending_work sigs s"
proof (induction evs arbitrary: s)
  case Nil
  then show ?case by simp
next
  case (Cons ev evs)
  then obtain s1 where s1: "step handler callback sigs s ev = Some s1"
    and rest: "exec (step handler callback sigs) s1 evs = Some s'"
    by (auto split: option.splits)
  have i1: "sched_inv sigs s1" using Cons.prems(1) s1 H C by (auto elim: step_inv[rotated 2])
  have "pending_work sigs s1 < pending_work sigs s" using step_work[OF H C Cons.prems(1) s1] by simp
  then show ?case using Cons.IH[OF i1 rest] by simp
qed

lemma start_work: "pending_work sigs (getTransactionDetails sigs :: ('ev, 'p) pipeline) = 3 * length sigs"
  using pending_work_startNext[OF inv1_init, of sigs, where ?'a = 'ev and ?'b = 'p]
  by (simp add: getTransactionDetails_def pending_work_def init_def)

lemma progress:
  assumes inv: "sched_inv sigs s" and lt: "completed s < length sigs"
  shows "\<exists>p. p \<in> set (inProgress s) \<and>
           (step handler callback sigs s (Settle p Rejected) \<noteq> None \<or> step handler callback sigs s (Finally p) \<noteq> None)"
proof -
  have "inProgress s \<noteq> []" using inv lt
    by (auto simp: sched_inv_def inv1_def saturated_def batchSize_def)
  then obtain p where p: "p \<in> set (inProgress s)" by (cases "inProgress s") auto
  show ?thesis
  proof (cases "map_of (fetching s) p")
    case None
    then show ?thesis using p by (auto simp: step_def)
  next
    case (Some a)
    then show ?thesis using p by (auto simp: step_def)
  qed
qed

lemma done_quiet:
  assumes inv: "sched_inv sigs s" and eq: "completed s = length sigs"
  shows "inProgress s = [] \<and> fetching s = [] \<and> launched s = [0..<length sigs]"
proof -
  from inv have i: "inv1 sigs s" by (simp add: sched_inv_def)
  then have l: "length (inProgress s) = 0" "length (launched s) = length sigs" using eq unfolding inv1_def by linarith+
  then have "fetching s = []" using i unfolding inv1_def by auto
  then show ?thesis using l i unfolding inv1_def by auto
qed

lemma fetching_le_inProgress:
  assumes "sched_inv sigs s"
  shows "length (fetching s) \<le> length (inProgress s)"
proof -
  from assms have d: "distinct (map fst (fetching s))" and sub: "fst ` set (fetching s) \<subseteq> set (inProgress s)"
    and di: "distinct (inProgress s)"
    by (simp_all add: sched_inv_def inv1_def)
  have "length (fetching s) = card (set (map fst (fetching s)))" using distinct_card[OF d] by simp
  also have "\<dots> \<le> card (set (inProgress s))" using sub by (simp add: card_mono)
  also have "\<dots> = length (inProgress s)" using di by (simp add: distinct_card)
  finally show ?thesis .
qed

lemma completed_le: "sched_inv sigs s \<Longrightarrow> completed s \<le> length sigs"
  by (simp add: sched_inv_def inv1_def)

lemma can_complete:
  assumes H: "\<And>p sig r s s'. handler p sig r s = Inr s' \<Longrightarrow>
                same_sched s s' \<and> length (parsing s') \<le> Suc (length (parsing s))"
    and C: "\<And>v s. same_sched s (callback v s) \<and> parsing (callback v s) = parsing s"
  shows "sched_inv sigs s \<Longrightarrow>
         \<exists>evs s'. exec (step handler callback sigs) s evs = Some s' \<and> completed s' = length sigs"
proof (induction "pending_work sigs s" arbitrary: s rule: less_induct)
  case less
  show ?case
  proof (cases "completed s = length sigs")
    case True
    then have "exec (step handler callback sigs) s [] = Some s \<and> completed s = length sigs"
      by simp
    then show ?thesis by blast
  next
    case False
    then have "completed s < length sigs" using completed_le[OF less.prems] by simp
    then obtain ev s1 where st: "step handler callback sigs s ev = Some s1"
      using progress[OF less.prems, of handler callback] by force
    have i1: "sched_inv sigs s1"
      using less.prems st H C by (auto elim: step_inv[rotated 2])
    have "pending_work sigs s1 < pending_work sigs s" by (rule step_work[OF H C less.prems st])
    then obtain evs s' where
      "exec (step handler callback sigs) s1 evs = Some s'" "completed s' = length sigs"
      using less.hyps[OF _ i1] by blast
    then have "exec (step handler callback sigs) s (ev # evs) = Some s' \<and>
               completed s' = length sigs"
      using st by simp
    then show ?thesis by blast
  qed
qed

subsection \<open>Resolution\<close>

lemma finally_cases:
  obtains s2 where "transactions s2 = transactions s" "parsing s2 = parsing s" "errors s2 = errors s"
     "unhandled s2 = unhandled s" "completed s2 = completed s + 1" "resolved s2 = resolved s"
     "finally_handler sigs p s = s2 \<or> finally_handler sigs p s = resolve sigs s2"
proof -
  define s2 where "s2 = startNext sigs (s\<lparr>inProgress := removeAll p (inProgress s), completed := completed s + 1\<rparr>)"
  have "transactions s2 = transactions s" "parsing s2 = parsing s" "errors s2 = errors s"
     "unhandled s2 = unhandled s" "completed s2 = completed s + 1" "resolved s2 = resolved s"
    unfolding s2_def
    using startNext_frame[of sigs "s\<lparr>inProgress := removeAll p (inProgress s), completed := completed s + 1\<rparr>"]
    by simp_all
  moreover have "finally_handler sigs p s = s2 \<or> finally_handler sigs p s = resolve sigs s2"
    unfolding s2_def finally_handler_def Let_def by meson
  ultimately show ?thesis using that by blast
qed

lemma finally_effect:
  "transactions (finally_handler sigs p s) = transactions s \<and>
   parsing (finally_handler sigs p s) = parsing s \<and>
   errors (finally_handler sigs p s) = errors s \<and>
   unhandled (finally_handler sigs p s) = unhandled s \<and>
   completed (finally_handler sigs p s) = completed s + 1"
proof -
  obtain s2 where "transactions s2 = transactions s" "parsing s2 = parsing s" "errors s2 = errors s"
     "unhandled s2 = unhandled s" "completed s2 = completed s + 1"
     "finally_handler sigs p s = s2 \<or> finally_handler sigs p s = resolve sigs s2"
    by (rule finally_cases[where s=s and sigs=sigs and p=p])
  then show ?thesis by (auto simp: resolve_def split: option.splits)
qed

lemma finally_resolved:
  assumes "resolved s = None"
  shows "resolved (finally_handler sigs p s) = None \<or>
         resolved (finally_handler sigs p s) =
           Some \<lparr>txCount = length sigs, pumpfunCount = length (transactions s)\<rparr>"
proof -
  obtain s2 where "transactions s2 = transactions s" "resolved s2 = resolved s"
     "finally_handler sigs p s = s2 \<or> finally_handler sigs p s = resolve sigs s2"
    by (rule finally_cases[where s=s and sigs=sigs and p=p])
  then show ?thesis using assms by (auto simp: resolve_def)
qed

lemma pending_unresolved:
  assumes "sched_inv sigs s" "inProgress s \<noteq> []"
  shows "resolved s = None"
proof (rule ccontr)
  assume "resolved s \<noteq> None"
  then have "completed s = length sigs" using assms(1) by (auto simp: sched_inv_def res_inv_def)
  then show False using done_quiet[OF assms(1)] assms(2) by simp
qed

lemma settle_enabled_pending:
  assumes "sched_inv sigs s" "map_of (fetching s) p = Some sig"
  shows "p \<in> set (inProgress s) \<and> sig = sigs ! p"
proof -
  have m: "(p, sig) \<in> set (fetching s)" using assms(2) by (rule map_of_SomeD)
  then have "p \<in> fst ` set (fetching s)" by force
  then show ?thesis using assms(1) m by (auto simp: sched_inv_def inv1_def)
qed

lemma step_min_post:
  assumes inv: "sched_inv sigs s" and post: "min_post s" and st: "step then_min no_callback sigs s ev = Some s'"
  shows "min_post s'"
proof (cases ev)
  case (Settle p out)
  let ?s0 = "s\<lparr>fetching := filter (\<lambda>(q, _). q \<noteq> p) (fetching s)\<rparr>"
  from Settle obtain sig where sg: "map_of (fetching s) p = Some sig" and s': "s' = settle (then_min p) sig out ?s0"
    using st by (auto simp: step_def split: option.splits)
  have "inProgress s \<noteq> []" using settle_enabled_pending[OF inv sg] by auto
  then have none: "resolved s = None" using inv by (rule pending_unresolved[rotated])
  have same: "same_sched ?s0 s'" unfolding s' by (rule settle_same) (simp add: then_min_same)
  have "parsing s' = parsing ?s0" unfolding s'
    by (auto simp: settle_def log_error_def then_min_same split: fetched.splits sum.splits)
  then show ?thesis using same none post by (simp add: min_post_def same_sched_def)
next
  case (Finally p)
  then have p: "p \<in> set (inProgress s)" and s': "s' = finally_handler sigs p s"
    using st by (auto simp: step_def split: if_splits)
  have none: "resolved s = None" using inv p by (intro pending_unresolved[of sigs]) auto
  show ?thesis unfolding s' min_post_def
    using finally_resolved[OF none, of sigs p] finally_effect[of sigs p s] post
    by (auto simp: min_post_def)
next
  case (ParseDone p)
  then show ?thesis using st post by (auto simp: step_def min_post_def split: option.splits)
qed

lemma step_full_post:
  assumes inv: "sched_inv sigs s" and post: "full_post s" and st: "step (then_full mp) parsed_callback sigs s ev = Some s'"
  shows "full_post s'"
proof (cases ev)
  case (Settle p out)
  let ?s0 = "s\<lparr>fetching := filter (\<lambda>(q, _). q \<noteq> p) (fetching s)\<rparr>"
  from Settle obtain sig where sg: "map_of (fetching s) p = Some sig" and s': "s' = settle (then_full mp p) sig out ?s0"
    using st by (auto simp: step_def split: option.splits)
  have "inProgress s \<noteq> []" using settle_enabled_pending[OF inv sg] by auto
  then have none: "resolved s = None" using inv by (rule pending_unresolved[rotated])
  have same: "same_sched ?s0 s'" unfolding s' by (rule settle_same) (simp add: then_full_same)
  then show ?thesis using none by (simp add: full_post_def same_sched_def)
next
  case (Finally p)
  then have p: "p \<in> set (inProgress s)" and s': "s' = finally_handler sigs p s"
    using st by (auto simp: step_def split: if_splits)
  have none: "resolved s = None" using inv p by (intro pending_unresolved[of sigs]) auto
  show ?thesis unfolding s' full_post_def
    using finally_resolved[OF none, of sigs p] finally_effect[of sigs p s]
    by auto
next
  case (ParseDone p)
  let ?s0 = "s\<lparr>parsing := filter (\<lambda>(q, _). q \<noteq> p) (parsing s)\<rparr>"
  from ParseDone obtain v where s': "s' = parsed_callback v ?s0"
    using st by (auto simp: step_def split: option.splits)
  have r: "resolved s' = resolved s" unfolding s' using parsed_callback_same[of ?s0 v] by (simp add: same_sched_def)
  have "length (transactions s) \<le> length (transactions s')" unfolding s'
    by (auto simp: parsed_callback_def split: sum.splits option.splits)
  then show ?thesis using post r by (auto simp: full_post_def)
qed

lemma run_min_post: "run_min sigs evs = Some s \<Longrightarrow> sched_inv sigs s \<and> min_post s"
  unfolding run_min_def
proof (erule exec_invariant[where P = "\<lambda>s. sched_inv sigs s \<and> min_post s"])
  have "parsing (getTransactionDetails sigs :: (tx_entry, unit) pipeline) = []"
       "resolved (getTransactionDetails sigs :: (tx_entry, unit) pipeline) = None"
    using startNext_frame[of sigs "init :: (tx_entry, unit) pipeline"]
    by (simp_all add: getTransactionDetails_def init_def)
  then show "sched_inv sigs (getTransactionDetails sigs :: (tx_entry, unit) pipeline) \<and> min_post (getTransactionDetails sigs)"
    using start_inv by (simp add: min_post_def)
next
  fix s ev s'
  assume a: "sched_inv sigs s \<and> min_post s" and st: "step then_min no_callback sigs s ev = Some s'"
  have "sched_inv sigs s'" using a st
    by (auto elim: step_inv[rotated 2] simp: then_min_same no_callback_same)
  then show "sched_inv sigs s' \<and> min_post s'" using step_min_post a st by blast
qed

lemma run_full_post: "run_full mp sigs evs = Some s \<Longrightarrow> sched_inv sigs s \<and> full_post s"
  unfolding run_full_def
proof (erule exec_invariant[where P = "\<lambda>s. sched_inv sigs s \<and> full_post s"])
  have "resolved (getTransactionDetails sigs :: (PumpfunTxResult, js_error + PumpfunTxResult option) pipeline) = None"
    using startNext_frame[of sigs "init :: (PumpfunTxResult, js_error + PumpfunTxResult option) pipeline"]
    by (simp_all add: getTransactionDetails_def init_def)
  then show "sched_inv sigs (getTransactionDetails sigs :: (PumpfunTxResult, js_error + PumpfunTxResult option) pipeline) \<and> full_post (getTransactionDetails sigs)"
    using start_inv by (simp add: full_post_def)
next
  fix s ev s'
  assume a: "sched_inv sigs s \<and> full_post s" and st: "step (then_full mp) parsed_callback sigs s ev = Some s'"
  have "sched_inv sigs s'" using a st
    by (auto elim: step_inv[rotated 2] simp: then_full_same parsed_callback_same)
  then show "sched_inv sigs s' \<and> full_post s'" using step_full_post a st by blast
qed

lemma settle_rejected:
  assumes inv: "sched_inv sigs s" and st: "step handler callback sigs s (Settle p Rejected) = Some s'"
  shows "transactions s' = transactions s \<and> errors s' = errors s @ [sig_signature (sigs ! p)] \<and>
         completed s' = completed s \<and> resolved s' = resolved s \<and>
         step handler callback sigs s' (Finally p) \<noteq> None"
proof -
  let ?s0 = "s\<lparr>fetching := filter (\<lambda>(q, _). q \<noteq> p) (fetching s)\<rparr>"
  from st obtain sig where sg: "map_of (fetching s) p = Some sig" and s': "s' = log_error sig ?s0"
    by (auto simp: step_def settle_def split: option.splits)
  have a: "p \<in> set (inProgress s)" "sig = sigs ! p" using settle_enabled_pending[OF inv sg] by simp_all
  have "map_of (filter (\<lambda>(q, _). q \<noteq> p) (fetching s)) p = None"
    by (auto simp: map_of_eq_None_iff)
  then show ?thesis unfolding s' using a by (simp add: log_error_def step_def)
qed

lemma failures_contained_step:
  assumes H: "\<And>p sig r s s'. handler p sig r s = Inr s' \<Longrightarrow>
                same_sched s s' \<and> length (parsing s') \<le> Suc (length (parsing s))"
    and C: "\<And>v s. same_sched s (callback v s) \<and> parsing (callback v s) = parsing s"
    and inv: "sched_inv sigs s"
  shows "failures_contained (step handler callback sigs) sigs s"
proof -
  let ?st = "step handler callback sigs"
  have a: "\<exists>s''. ?st s' (Finally p) = Some s'' \<and> completed s'' = completed s + 1 \<and> transactions s'' = transactions s"
    if st: "?st s (Settle p Rejected) = Some s'" for p s'
  proof -
    have r: "transactions s' = transactions s" "completed s' = completed s" "?st s' (Finally p) \<noteq> None"
      using settle_rejected[OF inv st] by simp_all
    then obtain s'' where s'': "?st s' (Finally p) = Some s''" by auto
    then have "s'' = finally_handler sigs p s'" by (auto simp: step_def split: if_splits)
    then show ?thesis using s'' r finally_effect[of sigs p s'] by simp
  qed
  have b: "completed s = length sigs \<and> sigs \<noteq> [] \<longrightarrow> resolved s \<noteq> None"
    and c: "\<forall>r. resolved s = Some r \<longrightarrow> txCount r = length sigs"
    using inv by (auto simp: sched_inv_def res_inv_def)
  have d: "\<exists>evs s'. exec ?st s evs = Some s' \<and> completed s' = length sigs"
    by (rule can_complete[OF H C inv])
  show ?thesis unfolding failures_contained_def
    using settle_rejected[OF inv] a progress[OF inv] b c d by blast
qed

lemma sched_inv_launch_order:
  assumes "sched_inv sigs s"
  shows "launch_order sigs s"
proof -
  from assms have i: "inv1 sigs s" by (simp add: sched_inv_def)
  have n: "launched s ! p = p" if "(p, sig) \<in> set (fetching s)" for p sig
  proof -
    have "p \<in> fst ` set (fetching s)" using that by force
    then have "p < length (launched s)" using i unfolding inv1_def by blast
    moreover have "launched s = [0..<length (launched s)]" using i by (simp add: inv1_def)
    ultimately show ?thesis by (metis add_0 nth_upt)
  qed
  have "\<forall>(p, sig)\<in>set (fetching s). sig = sigs ! (launched s ! p)"
    using i n unfolding inv1_def by fastforce
  then show ?thesis using i done_quiet[OF assms] unfolding launch_order_def inv1_def by blast
qed

lemma step_quiescent: "quiescent s \<Longrightarrow> step handler callback sigs s ev = None"
  by (cases ev) (auto simp: step_def quiescent_def)

lemma exec_quiescent:
  "quiescent s \<Longrightarrow> exec (step handler callback sigs) s evs = Some s' \<Longrightarrow> evs = [] \<and> s' = s"
  by (cases evs) (auto simp: step_quiescent)

lemma start_empty: "getTransactionDetails [] = init"
  by (simp add: getTransactionDetails_def startNext.simps init_def)

lemma init_quiescent: "quiescent init" "resolved init = None"
  by (simp_all add: quiescent_def init_def)

lemma exec_init:
  assumes "exec (step handler callback sigs) init evs = Some s"
  shows "evs = [] \<and> resolved s = None \<and> quiescent s"
  using exec_quiescent[OF init_quiescent(1) assms] init_quiescent by simp

section \<open>Example runs\<close>

lemmas run_eval = run_min_def run_full_def getTransactionDetails_def startNext.simps init_def launch_def
  batchSize_def Let_def step_def settle_def log_error_def finally_handler_def resolve_def
  then_min_def then_full_def parsed_callback_def no_callback_def
  isPumpfunTx_min_def isPumpfunTx_full_def references_pumpfun_def log_type_def
  parsePumpfunTx_min_def parsePumpfunTx_full_def inner_groups_def tx_success_def nameOfToken_def
  showPumpfunTx_raises_def parseInt_def
  sigA_def sigB_def pumpfun_instruction_def example_tx_def buy_tx_def buy_tx_no_inner_def token_name_def
  PUMPFUN_PROGRAM_ID_def

lemma run_min_no_inner:
  "run_min [sigA] [Settle 0 (Fulfilled (Some buy_tx_no_inner)), Finally 0] =
     Some \<lparr>transactions = [\<lparr>entry_signature = ''sigA'', entry_timestamp = Some 1738840559, entry_slot = 7,
                             entry_success = True, entry_trade = None\<rparr>],
           inProgress = [], completed = 1, launched = [0], fetching = [], parsing = [], errors = [],
           unhandled = 0,
           resolved = Some \<lparr>txCount = 1, pumpfunCount = 1\<rparr>\<rparr>"
  by (simp add: run_eval)

lemma run_min_two:
  "run_min [sigA, sigB] [Settle 0 Rejected, Finally 0, Settle 1 (Fulfilled (Some (buy_tx fixture))), Finally 1] =
     Some \<lparr>transactions = [\<lparr>entry_signature = ''sigB'', entry_timestamp = Some 1738840559, entry_slot = 7,
                             entry_success = True,
                             entry_trade = Some \<lparr>solAmount = ''491103214'', tokenAmount = ''12256633644127'', isBuy = True\<rparr>\<rparr>],
           inProgress = [], completed = 2, launched = [0, 1], fetching = [], parsing = [], errors = [''sigA''],
           unhandled = 0,
           resolved = Some \<lparr>txCount = 2, pumpfunCount = 1\<rparr>\<rparr>"
  by (simp add: run_eval decodeMinimal_fixture)

lemma run_full_pending:
  "run_full token_name [sigA] [Settle 0 (Fulfilled (Some (buy_tx fixture))), Finally 0] =
     Some \<lparr>transactions = [], inProgress = [], completed = 1, launched = [0], fetching = [],
           parsing = [(0, Inr (Some \<lparr>solAmount = ''491103214'', tokenAmount = ''12256633644127'', isBuy = True,
                                      mint = js_slice 16 48 fixture, timestamp = ''1738840559'', slot = 7,
                                      signature = Some ''sigA'', success = True, tokenName = ''Token''\<rparr>))],
           errors = [], unhandled = 0,
           resolved = Some \<lparr>txCount = 1, pumpfunCount = 0\<rparr>\<rparr>"
  by (simp add: run_eval decodeFull_fixture)

lemma run_min_start_two:
  "run_min [sigA, sigB] [] =
     Some \<lparr>transactions = [], inProgress = [0, 1], completed = 0, launched = [0, 1],
           fetching = [(0, sigA), (1, sigB)], parsing = [], errors = [], unhandled = 0,
           resolved = None\<rparr>"
  by (simp add: run_min_def getTransactionDetails_def startNext.simps init_def launch_def
      batchSize_def Let_def)

lemma start_21:
  "run_min (replicate 21 sigA) [] =
     Some \<lparr>transactions = [], inProgress = [0..<20], completed = 0, launched = [0..<20],
           fetching = map (\<lambda>p. (p, sigA)) [0..<20], parsing = [], errors = [], unhandled = 0,
           resolved = None\<rparr>"
  by (simp add: run_min_def getTransactionDetails_def startNext.simps init_def launch_def
      batchSize_def Let_def upt_rec)

lemma run_21:
  "run_min (replicate 21 sigA) [Settle 3 Rejected, Finally 3] =
     Some \<lparr>transactions = [], inProgress = [0, 1, 2] @ [4..<21], completed = 1, launched = [0..<21],
           fetching = map (\<lambda>p. (p, sigA)) ([0, 1, 2] @ [4..<21]), parsing = [], errors = [''sigA''],
           unhandled = 0, resolved = None\<rparr>"
  by (simp add: run_min_def getTransactionDetails_def startNext.simps init_def launch_def
      batchSize_def Let_def upt_rec step_def settle_def log_error_def finally_handler_def sigA_def)

lemma classify_no_inner:
  "isPumpfunTx_min (Some buy_tx_no_inner) = Inr 1" "isPumpfunTx_full (Some buy_tx_no_inner) = Inr 1"
  "parsePumpfunTx_min buy_tx_no_inner = Inr None"
  "well_formed_inner buy_tx_no_inner" "program_payloads buy_tx_no_inner = []"
  by (simp_all add: run_eval well_formed_inner_def program_payloads_def inner_instruction_list_def)

lemma classify_short:
  "isPumpfunTx_min (Some (buy_tx (take 63 fixture))) = Inr 1"
  "well_formed_inner (buy_tx (take 63 fixture))"
  "program_payloads (buy_tx (take 63 fixture)) = [take 63 fixture]"
  by (simp_all add: run_eval well_formed_inner_def program_payloads_def inner_instruction_list_def)

section \<open>The claims about the pipeline\<close>

text \<open>
  C7. At every point of every run, in both variants and whatever the length of the list
  and the order in which fetches settle and handlers run, the set \<open>inProgress\<close> holds at
  most \<open>batchSize\<close> promises, and the fetches in flight are among them.
\<close>

theorem C7_in_flight_never_exceeds_batchSize:
  "(\<forall>s. run_min sigs evs = Some s \<longrightarrow>
        length (inProgress s) \<le> batchSize \<and> length (fetching s) \<le> length (inProgress s)) \<and>
   (\<forall>s. run_full metaplex sigs evs = Some s \<longrightarrow>
        length (inProgress s) \<le> batchSize \<and> length (fetching s) \<le> length (inProgress s))"
proof (intro conjI allI impI)
  fix s assume "run_min sigs evs = Some s"
  then have i: "sched_inv sigs s" by (rule run_min_inv)
  then show "length (inProgress s) \<le> batchSize" by (simp add: sched_inv_def inv1_def)
  show "length (fetching s) \<le> length (inProgress s)" using i by (rule fetching_le_inProgress)
next
  fix s assume "run_full metaplex sigs evs = Some s"
  then have i: "sched_inv sigs s" by (rule run_full_inv)
  then show "length (inProgress s) \<le> batchSize" by (simp add: sched_inv_def inv1_def)
  show "length (fetching s) \<le> length (inProgress s)" using i by (rule fetching_le_inProgress)
qed

text \<open>
  C7 on 21 signatures: 20 fetches start at once, and the 21st starts when one is counted.
\<close>

theorem C7_witness:
  "(\<exists>s. run_min (replicate 21 sigA) [] = Some s \<and> length (inProgress s) = 20 \<and>
        length (launched s) = 20 \<and> length (inProgress s) \<le> batchSize) \<and>
   (\<exists>s. run_min (replicate 21 sigA) [Settle 3 Rejected, Finally 3] = Some s \<and>
        length (inProgress s) = 20 \<and> length (launched s) = 21 \<and>
        length (inProgress s) \<le> batchSize \<and> length (fetching s) \<le> length (inProgress s))"
  using C7_in_flight_never_exceeds_batchSize[where sigs = "replicate 21 sigA" and evs = "[]"]
    C7_in_flight_never_exceeds_batchSize[where sigs = "replicate 21 sigA"
      and evs = "[Settle 3 Rejected, Finally 3]"]
  by (simp add: start_21 run_21)

text \<open>
  C10. At every point of every run, in both variants, \<open>completed + inProgress.size\<close> is
  the number of fetches launched so far, the indices read at the launches are
  \<open>0, 1, 2, \<dots>\<close> in order with none skipped and none repeated, each pending fetch is for
  the signature at its index, and when all items are counted every index of the list has
  been read exactly once.
\<close>

theorem C10_each_identifier_launched_once:
  "(\<forall>s. run_min sigs evs = Some s \<longrightarrow> launch_order sigs s) \<and>
   (\<forall>s. run_full metaplex sigs evs = Some s \<longrightarrow> launch_order sigs s)"
proof (intro conjI allI impI)
  fix s assume "run_min sigs evs = Some s"
  then show "launch_order sigs s" by (intro sched_inv_launch_order run_min_inv)
next
  fix s assume "run_full metaplex sigs evs = Some s"
  then show "launch_order sigs s" by (intro sched_inv_launch_order run_full_inv)
qed

text \<open>C10 on two signatures, at the start and at the end of a run.\<close>

theorem C10_witness:
  "(\<exists>s. run_min [sigA, sigB] [] = Some s \<and> launched s = [0, 1] \<and>
        completed s + length (inProgress s) = length (launched s) \<and>
        fetching s = [(0, [sigA, sigB] ! 0), (1, [sigA, sigB] ! 1)]) \<and>
   (\<exists>s. run_min [sigA, sigB]
           [Settle 0 Rejected, Finally 0, Settle 1 (Fulfilled (Some (buy_tx fixture))), Finally 1]
           = Some s \<and>
        completed s = length [sigA, sigB] \<and> launched s = [0, 1] \<and>
        completed s + length (inProgress s) = length (launched s))"
  using C10_each_identifier_launched_once[where sigs = "[sigA, sigB]" and evs = "[]"]
    C10_each_identifier_launched_once[where sigs = "[sigA, sigB]"
      and evs = "[Settle 0 Rejected, Finally 0, Settle 1 (Fulfilled (Some (buy_tx fixture))), Finally 1]"]
  by (simp add: run_min_two run_min_start_two del: One_nat_def)

text \<open>
  C6. In every run of either variant: a fetch that fails is logged under its signature,
  adds nothing to the array, leaves the result untouched, and is counted by its
  \<^verbatim>\<open>finally\<close> handler; the run never gets stuck before all items are counted, can
  always be continued until they all are, and has at most three events per signature;
  when all items are counted the promise is resolved, and \<open>txCount\<close> of the result is the
  length of the input list.
\<close>

theorem C6_fetch_failures_are_contained:
  "(\<forall>s. run_min sigs evs = Some s \<longrightarrow>
        length evs \<le> 3 * length sigs \<and> failures_contained (step then_min no_callback sigs) sigs s) \<and>
   (\<forall>s. run_full metaplex sigs evs = Some s \<longrightarrow>
        length evs \<le> 3 * length sigs \<and>
        failures_contained (step (then_full metaplex) parsed_callback sigs) sigs s)"
proof (intro conjI allI impI)
  fix s assume r: "run_min sigs evs = Some s"
  have "length evs + pending_work sigs s \<le> pending_work sigs (getTransactionDetails sigs :: (tx_entry, unit) pipeline)"
    using r unfolding run_min_def
    by (intro exec_bounded[where handler = then_min and callback = no_callback])
       (simp_all add: then_min_same no_callback_same start_inv)
  then show "length evs \<le> 3 * length sigs" by (simp add: start_work)
  show "failures_contained (step then_min no_callback sigs) sigs s"
    by (rule failures_contained_step) (simp_all add: then_min_same no_callback_same run_min_inv[OF r])
next
  fix s assume r: "run_full metaplex sigs evs = Some s"
  have "length evs + pending_work sigs s \<le> pending_work sigs (getTransactionDetails sigs :: (PumpfunTxResult, js_error + PumpfunTxResult option) pipeline)"
    using r unfolding run_full_def
    by (intro exec_bounded[where handler = "then_full metaplex" and callback = parsed_callback])
       (simp_all add: then_full_same parsed_callback_same start_inv)
  then show "length evs \<le> 3 * length sigs" by (simp add: start_work)
  show "failures_contained (step (then_full metaplex) parsed_callback sigs) sigs s"
    by (rule failures_contained_step) (simp_all add: then_full_same parsed_callback_same run_full_inv[OF r])
qed

text \<open>
  C6 on two signatures, the first fetch failing and the second returning a buy.
\<close>

theorem C6_witness:
  "(\<exists>s s' s''. run_min [sigA, sigB] [] = Some s \<and> completed s < length [sigA, sigB] \<and>
       step then_min no_callback [sigA, sigB] s (Settle 0 Rejected) = Some s' \<and>
       errors s' = errors s @ [''sigA''] \<and> transactions s' = transactions s \<and>
       resolved s' = resolved s \<and>
       step then_min no_callback [sigA, sigB] s' (Finally 0) = Some s'' \<and>
       completed s'' = completed s + 1) \<and>
   (\<exists>s r. run_min [sigA, sigB]
             [Settle 0 Rejected, Finally 0, Settle 1 (Fulfilled (Some (buy_tx fixture))), Finally 1]
             = Some s \<and>
       errors s = [''sigA''] \<and> completed s = length [sigA, sigB] \<and> resolved s = Some r \<and>
       txCount r = length [sigA, sigB] \<and> pumpfunCount r = 1)"
  using C6_fetch_failures_are_contained[where sigs = "[sigA, sigB]" and evs = "[]"]
    C6_fetch_failures_are_contained[where sigs = "[sigA, sigB]"
      and evs = "[Settle 0 Rejected, Finally 0, Settle 1 (Fulfilled (Some (buy_tx fixture))), Finally 1]"]
  by (simp add: run_min_two run_min_start_two del: One_nat_def)
     (simp add: step_def settle_def log_error_def sigA_def finally_handler_def startNext.simps
        batchSize_def)

text \<open>
  The count in the result against the array the result refers to. In the minimal variant
  every push happens in a \<^verbatim>\<open>then\<close> handler, before the \<^verbatim>\<open>finally\<close> handler of the same
  promise, so nothing is pushed after \<^verbatim>\<open>resolve\<close>: the count is the length of the array
  whenever the caller reads. In the full variant the pushes are in detached callbacks, and
  the count can only be too small.
\<close>

lemma min_count_is_length:
  assumes "run_min sigs evs = Some s" and "resolved s = Some r"
  shows "pumpfunCount r = length (transactions s)"
  using run_min_post[OF assms(1)] assms(2) by (simp add: min_post_def)

lemma full_count_at_most_length:
  assumes "run_full metaplex sigs evs = Some s" and "resolved s = Some r"
  shows "pumpfunCount r \<le> length (transactions s)"
  using run_full_post[OF assms(1)] assms(2) by (simp add: full_post_def)


text \<open>
  C5, as the specification states it, fails: on the empty list the loop of \<^verbatim>\<open>startNext\<close>
  starts nothing, so no \<^verbatim>\<open>finally\<close> handler ever runs and \<^verbatim>\<open>resolve\<close> is never called.
\<close>

theorem C5_counterexample_empty_list_unresolved:
  "run_min [] [] =
     Some \<lparr>transactions = [], inProgress = [], completed = 0, launched = [], fetching = [],
           parsing = [], errors = [], unhandled = 0, resolved = None\<rparr> \<and>
   run_full token_name [] [] =
     Some \<lparr>transactions = [], inProgress = [], completed = 0, launched = [], fetching = [],
           parsing = [], errors = [], unhandled = 0, resolved = None\<rparr>"
  by (simp add: run_min_def run_full_def start_empty init_def)

text \<open>
  C5, amended. \<^verbatim>\<open>getAllTransactions\<close> returns the empty array for an empty list without
  calling \<^verbatim>\<open>getTransactionDetails\<close>; and \<^verbatim>\<open>getTransactionDetails\<close> on an empty list starts
  no fetch and is never resolved: no event can happen after it.
\<close>

theorem C5_empty_list_never_resolves:
  "getAllTransactions [] = (EmptyArray :: (tx_entry, unit) pipeline returned) \<and>
   getAllTransactions [] = (EmptyArray :: (PumpfunTxResult, js_error + PumpfunTxResult option) pipeline returned) \<and>
   (\<forall>s. run_min [] evs = Some s \<longrightarrow> evs = [] \<and> resolved s = None \<and> quiescent s) \<and>
   (\<forall>s. run_full metaplex [] evs = Some s \<longrightarrow> evs = [] \<and> resolved s = None \<and> quiescent s)"
  using exec_init[of then_min no_callback "[]" evs] exec_init[of "then_full metaplex" parsed_callback "[]" evs]
  by (simp add: getAllTransactions_def run_min_def run_full_def start_empty)

text \<open>C5 amended, at the run without events.\<close>

theorem C5_witness:
  "getAllTransactions [] = (EmptyArray :: (tx_entry, unit) pipeline returned) \<and>
   (\<exists>s. run_min [] [] = Some s \<and> resolved s = None \<and> quiescent s) \<and>
   (\<exists>s. run_full token_name [] [] = Some s \<and> resolved s = None \<and> quiescent s)"
  using C5_empty_list_never_resolves[where evs = "[]" and metaplex = token_name]
  by (simp add: run_min_def run_full_def)

text \<open>
  C2, as the specification states it, fails in the minimal variant: a transaction the
  classifier marks as a buy and whose inner instructions do not reference the program is
  appended, without the decoded fields, and counted.
\<close>

theorem C2_counterexample_bare_record_appended:
  "isPumpfunTx_min (Some buy_tx_no_inner) = Inr 1 \<and>
   parsePumpfunTx_min buy_tx_no_inner = Inr None \<and>
   run_min [sigA] [Settle 0 (Fulfilled (Some buy_tx_no_inner)), Finally 0] =
     Some \<lparr>transactions = [\<lparr>entry_signature = ''sigA'', entry_timestamp = Some 1738840559,
                             entry_slot = 7, entry_success = True, entry_trade = None\<rparr>],
           inProgress = [], completed = 1, launched = [0], fetching = [], parsing = [],
           errors = [], unhandled = 0,
           resolved = Some \<lparr>txCount = 1, pumpfunCount = 1\<rparr>\<rparr>"
  using classify_no_inner(1,3) run_min_no_inner by simp

text \<open>
  C2, amended. For a transaction that the classifier marks as matched and whose inner
  instructions all carry a program id:
  \<^item> minimal variant, no inner instruction of the program: the record with signature,
    timestamp, slot and success alone is appended;
  \<^item> minimal variant, first payload of the program shorter than 64 bytes: the read
    raises, the \<^verbatim>\<open>catch\<close> handler logs the signature, nothing is appended;
  \<^item> full variant, no payload of the program with 137 bytes: the detached parse settles
    with \<^verbatim>\<open>undefined\<close> and its callback appends nothing.
\<close>

theorem C2_matched_record_without_decodable_payload:
  assumes "well_formed_inner tx"
  shows "(isPumpfunTx_min (Some tx) = Inr ty \<and> ty \<noteq> 0 \<and> program_payloads tx = [] \<longrightarrow>
            settle (then_min p) sig (Fulfilled (Some tx)) s =
              s\<lparr>transactions := transactions s @ [bare_entry sig tx]\<rparr>) \<and>
         (isPumpfunTx_min (Some tx) = Inr ty \<and> ty \<noteq> 0 \<and>
          program_payloads tx \<noteq> [] \<and> length (hd (program_payloads tx)) < 64 \<longrightarrow>
            settle (then_min p) sig (Fulfilled (Some tx)) s = log_error sig s \<and>
            transactions (log_error sig s) = transactions s) \<and>
         (isPumpfunTx_full (Some tx) = Inr ty \<and> ty \<noteq> 0 \<and>
          list_all (\<lambda>b. length b \<noteq> 137) (program_payloads tx) \<longrightarrow>
            settle (then_full metaplex p) sig (Fulfilled (Some tx)) t =
              t\<lparr>parsing := parsing t @ [(p, Inr None)]\<rparr> \<and>
            transactions (parsed_callback (Inr None) t') = transactions t')"
proof (intro conjI impI)
  assume a: "isPumpfunTx_min (Some tx) = Inr ty \<and> ty \<noteq> 0 \<and> program_payloads tx = []"
  then have "parsePumpfunTx_min tx = Inr None" using parse_min_payloads[OF assms] by simp
  then show "settle (then_min p) sig (Fulfilled (Some tx)) s =
              s\<lparr>transactions := transactions s @ [bare_entry sig tx]\<rparr>"
    using a by (simp add: settle_def then_min_def bare_entry_def)
next
  assume a: "isPumpfunTx_min (Some tx) = Inr ty \<and> ty \<noteq> 0 \<and>
          program_payloads tx \<noteq> [] \<and> length (hd (program_payloads tx)) < 64"
  then obtain b bs where b: "program_payloads tx = b # bs" "length b < 64"
    by (cases "program_payloads tx") auto
  then have "decodeMinimal b = Inl RangeError" using decodeMinimal_short[of b] by simp
  then have "parsePumpfunTx_min tx = Inl RangeError" using parse_min_payloads[OF assms] b by simp
  then show "settle (then_min p) sig (Fulfilled (Some tx)) s = log_error sig s"
    using a by (simp add: settle_def then_min_def)
next
  show "transactions (log_error sig s) = transactions s" by (simp add: log_error_def)
next
  assume a: "isPumpfunTx_full (Some tx) = Inr ty \<and> ty \<noteq> 0 \<and>
          list_all (\<lambda>b. length b \<noteq> 137) (program_payloads tx)"
  then have "parsePumpfunTx_full metaplex tx = Inr None" using parse_full_none[OF assms] by simp
  then show "settle (then_full metaplex p) sig (Fulfilled (Some tx)) t =
              t\<lparr>parsing := parsing t @ [(p, Inr None)]\<rparr>"
    using a by (simp add: settle_def then_full_def)
next
  show "transactions (parsed_callback (Inr None) t') = transactions t'"
    by (simp add: parsed_callback_def)
qed

text \<open>
  C2 amended, at a buy without inner instructions and at a buy whose payload is the first
  63 bytes of the fixture.
\<close>

theorem C2_witness:
  "well_formed_inner buy_tx_no_inner \<and> isPumpfunTx_min (Some buy_tx_no_inner) = Inr 1 \<and>
   program_payloads buy_tx_no_inner = [] \<and>
   settle (then_min 0) sigA (Fulfilled (Some buy_tx_no_inner)) (init :: (tx_entry, unit) pipeline) =
     init\<lparr>transactions := [bare_entry sigA buy_tx_no_inner]\<rparr> \<and>
   well_formed_inner (buy_tx (take 63 fixture)) \<and>
   isPumpfunTx_min (Some (buy_tx (take 63 fixture))) = Inr 1 \<and>
   length (hd (program_payloads (buy_tx (take 63 fixture)))) < 64 \<and>
   settle (then_min 0) sigA (Fulfilled (Some (buy_tx (take 63 fixture)))) (init :: (tx_entry, unit) pipeline) =
     log_error sigA init \<and>
   isPumpfunTx_full (Some buy_tx_no_inner) = Inr 1 \<and>
   settle (then_full token_name 0) sigA (Fulfilled (Some buy_tx_no_inner)) init =
     init\<lparr>parsing := [(0, Inr None)]\<rparr>"
  using C2_matched_record_without_decodable_payload[where tx = buy_tx_no_inner and ty = 1
      and sig = sigA and p = 0 and s = "init :: (tx_entry, unit) pipeline" and t = init and t' = init
      and metaplex = token_name]
    C2_matched_record_without_decodable_payload[where tx = "buy_tx (take 63 fixture)" and ty = 1
      and sig = sigA and p = 0 and s = "init :: (tx_entry, unit) pipeline" and t = init and t' = init
      and metaplex = token_name]
  by (simp add: classify_no_inner classify_short length_fixture init_def del: One_nat_def)

end
